theory Spec2Isabelle
  imports Main "HOL-Library.Sublist" "HOL-Library.AList"
begin

section \<open>Text\<close>

text \<open>
  The detector of \<^verbatim>\<open>src/lib/error-rule-detector.ts\<close> works on JavaScript strings.
  A string is modelled as a list of characters, each character read as the code
  unit of the same number (U+0000 to U+00FF). On this range
  \<^verbatim>\<open>String.prototype.toLowerCase\<close> maps A..Z, U+00C0..U+00D6 and U+00D8..U+00DE
  to the code unit 32 higher and leaves every other code unit alone;
  \<^verbatim>\<open>String.prototype.trim\<close> strips the white space and line terminator code
  units 9..13, 32 and 160 from both ends; \<^verbatim>\<open>String.prototype.includes\<close> searches
  for a contiguous occurrence (\<open>includes_str\<close>; the bare name is reserved).
\<close>

definition toLowerCaseUnit :: "char \<Rightarrow> char" where
  "toLowerCaseUnit c =
     (let n = (of_char c :: nat)
      in if (65 \<le> n \<and> n \<le> 90) \<or> (192 \<le> n \<and> n \<le> 222 \<and> n \<noteq> 215)
         then char_of (n + 32) else c)"

definition toLowerCase :: "string \<Rightarrow> string" where
  "toLowerCase s = map toLowerCaseUnit s"

definition isWhiteSpace :: "char \<Rightarrow> bool" where
  "isWhiteSpace c =
     (let n = (of_char c :: nat) in (9 \<le> n \<and> n \<le> 13) \<or> n = 32 \<or> n = 160)"

definition trim :: "string \<Rightarrow> string" where
  "trim s = rev (dropWhile isWhiteSpace (rev (dropWhile isWhiteSpace s)))"

definition includes_str :: "string \<Rightarrow> string \<Rightarrow> bool" where
  "includes_str s searchString = sublist searchString s"

section \<open>Data model\<close>

text \<open>
  A row of the rule store, as \<^verbatim>\<open>getActiveErrorRules\<close> returns it. The match type
  is kept as text: the loader has a default branch for a value that is none of
  \<^verbatim>\<open>contains\<close>, \<^verbatim>\<open>exact\<close>, \<^verbatim>\<open>regex\<close>.
\<close>

record ErrorRule =
  rule_pattern :: string
  rule_category :: string
  rule_matchType :: string
  rule_description :: "string option"

text \<open>
  A compiled \<^verbatim>\<open>RegExp\<close> object (flag \<^verbatim>\<open>i\<close>, neither \<^verbatim>\<open>g\<close> nor \<^verbatim>\<open>y\<close>, so
  \<^verbatim>\<open>test\<close> keeps no position between calls): its \<^verbatim>\<open>source\<close> and its
  \<^verbatim>\<open>test\<close> method.
\<close>

record RegExp =
  source :: string
  test :: "string \<Rightarrow> bool"

record RegexPattern =
  rx_pattern :: RegExp
  rx_category :: string
  rx_description :: "string option"

record ContainsPattern =
  cp_text :: string
  cp_category :: string
  cp_description :: "string option"

record ExactPattern =
  ep_text :: string
  ep_category :: string
  ep_description :: "string option"

text \<open>
  The result of a detection: \<^verbatim>\<open>matched\<close> and three optional fields
  (\<open>None\<close> is an absent field).
\<close>

record ErrorDetectionResult =
  matched :: bool
  category :: "string option"
  pattern :: "string option"
  matchType :: "string option"

text \<open>
  The detector object. The \<^verbatim>\<open>Map\<close> of exact patterns is an association list
  in insertion order: \<^verbatim>\<open>get\<close> is \<^const>\<open>map_of\<close>, \<^verbatim>\<open>set\<close> is
  \<^const>\<open>AList.update\<close> (an existing key keeps its place and takes the new
  value), \<^verbatim>\<open>clear\<close> is the empty list and \<^verbatim>\<open>size\<close> the length.
\<close>

record ErrorRuleDetector =
  regexPatterns :: "RegexPattern list"
  containsPatterns :: "ContainsPattern list"
  exactPatterns :: "(string \<times> ExactPattern) list"
  lastReloadTime :: int
  isLoading :: bool
  isInitialized :: bool

definition new_ErrorRuleDetector :: ErrorRuleDetector where
  "new_ErrorRuleDetector =
     \<lparr>regexPatterns = [], containsPatterns = [], exactPatterns = [],
      lastReloadTime = 0, isLoading = False, isInitialized = False\<rparr>"

text \<open>
  The two library calls of the loader are parameters of the model:
  \<^verbatim>\<open>safeRegex(pattern)\<close> answers true or false, and \<^verbatim>\<open>new RegExp(pattern, "i")\<close>
  gives the compiled object. \<open>None\<close> is a call that throws (both calls stand
  inside the loader's \<^verbatim>\<open>try\<close>).
\<close>

record externals =
  safeRegex :: "string \<Rightarrow> bool option"
  newRegExp :: "string \<Rightarrow> RegExp option"

section \<open>reload\<close>

text \<open>
  The body of the \<^verbatim>\<open>for (const rule of rules)\<close> loop: one rule, applied to the
  detector and to the two local counters \<^verbatim>\<open>validRegexCount\<close> and
  \<^verbatim>\<open>skippedRedosCount\<close>. Calls of the logger are not modelled.
\<close>

definition loadRule ::
  "externals \<Rightarrow> ErrorRule \<Rightarrow> ErrorRuleDetector \<times> nat \<times> nat \<Rightarrow> ErrorRuleDetector \<times> nat \<times> nat"
where
  "loadRule ext rule acc =
     (case acc of (d, validRegexCount, skippedRedosCount) \<Rightarrow>
        if rule_matchType rule = ''contains'' then
          (let lowerText = toLowerCase (rule_pattern rule)
           in (d\<lparr>containsPatterns := containsPatterns d @
                    [\<lparr>cp_text = lowerText, cp_category = rule_category rule,
                      cp_description = rule_description rule\<rparr>]\<rparr>,
               validRegexCount, skippedRedosCount))
        else if rule_matchType rule = ''exact'' then
          (let lowerText = toLowerCase (rule_pattern rule)
           in (d\<lparr>exactPatterns := AList.update lowerText
                    \<lparr>ep_text = lowerText, ep_category = rule_category rule,
                     ep_description = rule_description rule\<rparr> (exactPatterns d)\<rparr>,
               validRegexCount, skippedRedosCount))
        else if rule_matchType rule = ''regex'' then
          (case safeRegex ext (rule_pattern rule) of
             None \<Rightarrow> (d, validRegexCount, skippedRedosCount)
           | Some False \<Rightarrow> (d, validRegexCount, Suc skippedRedosCount)
           | Some True \<Rightarrow>
               (case newRegExp ext (rule_pattern rule) of
                  None \<Rightarrow> (d, validRegexCount, skippedRedosCount)
                | Some re \<Rightarrow>
                    (d\<lparr>regexPatterns := regexPatterns d @
                         [\<lparr>rx_pattern = re, rx_category = rule_category rule,
                           rx_description = rule_description rule\<rparr>]\<rparr>,
                     Suc validRegexCount, skippedRedosCount)))
        else (d, validRegexCount, skippedRedosCount))"

definition loadRules ::
  "externals \<Rightarrow> ErrorRule list \<Rightarrow> ErrorRuleDetector \<times> nat \<times> nat \<Rightarrow> ErrorRuleDetector \<times> nat \<times> nat"
where
  "loadRules ext rules acc = foldl (\<lambda>a rule. loadRule ext rule a) acc rules"

text \<open>
  \<^verbatim>\<open>reload\<close> is an async function with one suspension point, the
  \<^verbatim>\<open>await getActiveErrorRules()\<close>. \<open>reload_start\<close> is the code before it:
  the answer \<open>True\<close> says that the store was queried and the call now waits,
  \<open>False\<close> that the call returned at once.
\<close>

definition reload_start :: "ErrorRuleDetector \<Rightarrow> bool \<times> ErrorRuleDetector" where
  "reload_start d = (if isLoading d then (False, d) else (True, d\<lparr>isLoading := True\<rparr>))"

text \<open>
  \<open>reload_resume\<close> is the code after the suspension point. The store's answer is
  \<open>Inl message\<close> when the query rejects and \<open>Inr rules\<close> when it delivers;
  \<open>now\<close> is what \<^verbatim>\<open>Date.now()\<close> returns. The \<^verbatim>\<open>try\<close> block gives the exception
  it raises (if any) and the detector at that point, the \<^verbatim>\<open>catch\<close> block only
  logs, the \<^verbatim>\<open>finally\<close> block resets the loading flag. The first component of
  the result is the exception that reaches the caller of \<^verbatim>\<open>reload\<close>.
\<close>

definition reload_try ::
  "externals \<Rightarrow> string + ErrorRule list \<Rightarrow> int \<Rightarrow> ErrorRuleDetector \<Rightarrow> string option \<times> ErrorRuleDetector"
where
  "reload_try ext fetched now d =
     (case fetched of
        Inl message \<Rightarrow> (Some message, d)
      | Inr rules \<Rightarrow>
          (case loadRules ext rules
                  (d\<lparr>regexPatterns := [], containsPatterns := [], exactPatterns := []\<rparr>, 0, 0) of
             (d', validRegexCount, skippedRedosCount) \<Rightarrow>
               (None, d'\<lparr>lastReloadTime := now, isInitialized := True\<rparr>)))"

definition reload_resume ::
  "externals \<Rightarrow> string + ErrorRule list \<Rightarrow> int \<Rightarrow> ErrorRuleDetector \<Rightarrow> string option \<times> ErrorRuleDetector"
where
  "reload_resume ext fetched now d =
     (case reload_try ext fetched now d of
        (thrown, d1) \<Rightarrow>
          (case (case thrown of Some message \<Rightarrow> (None, d1) | None \<Rightarrow> (None, d1)) of
             (thrown', d2) \<Rightarrow> (thrown', d2\<lparr>isLoading := False\<rparr>)))"

text \<open>
  A call of \<^verbatim>\<open>reload\<close> that runs from its first line to its return with nothing
  else in between.
\<close>

definition reload ::
  "externals \<Rightarrow> string + ErrorRule list \<Rightarrow> int \<Rightarrow> ErrorRuleDetector \<Rightarrow> string option \<times> ErrorRuleDetector"
where
  "reload ext fetched now d =
     (case reload_start d of
        (False, d') \<Rightarrow> (None, d')
      | (True, d') \<Rightarrow> reload_resume ext fetched now d')"

section \<open>Detection\<close>

abbreviation notMatched :: ErrorDetectionResult where
  "notMatched \<equiv> \<lparr>matched = False, category = None, pattern = None, matchType = None\<rparr>"

text \<open>
  \<^verbatim>\<open>ensureInitialized\<close> can be suspended in two places: at the \<^verbatim>\<open>await\<close> of
  the timer in the polling loop, and at \<^verbatim>\<open>await this.reload()\<close>, where the
  reload either waits for the store or has returned already.
  \<open>ensureInitialized_start\<close> is the code up to the first suspension, and says
  where the call stands: it has returned (\<open>EnsureDone\<close>), it polls
  (\<open>EnsureWaits\<close>), its reload waits for the store (\<open>EnsureReloads\<close>), or its
  reload has returned and the last line is still to run (\<open>EnsureReloaded\<close>).
\<close>

datatype ensure_status =
    EnsureDone
  | EnsureWaits
  | EnsureReloads
  | EnsureReloaded

definition ensureInitialized_start :: "ErrorRuleDetector \<Rightarrow> ensure_status \<times> ErrorRuleDetector" where
  "ensureInitialized_start d =
     (if isInitialized d then (EnsureDone, d)
      else if isLoading d then (EnsureWaits, d)
      else (case reload_start d of
              (True, d') \<Rightarrow> (EnsureReloads, d')
            | (False, d') \<Rightarrow> (EnsureReloaded, d')))"

text \<open>
  One round of \<^verbatim>\<open>while (this.isLoading)\<close> after the timer has fired: \<open>True\<close>
  when the call goes on waiting.
\<close>

definition ensureInitialized_poll :: "ErrorRuleDetector \<Rightarrow> bool" where
  "ensureInitialized_poll d = isLoading d"

text \<open>The last line, after the awaited reload has returned.\<close>

definition ensureInitialized_mark :: "ErrorRuleDetector \<Rightarrow> ErrorRuleDetector" where
  "ensureInitialized_mark d = d\<lparr>isInitialized := True\<rparr>"

text \<open>
  A call of \<^verbatim>\<open>ensureInitialized\<close> with nothing else running in between. When
  it finds a load in progress it polls a flag that nothing resets: the call
  does not return, which is the value \<open>None\<close>. Otherwise the result is the
  exception that reaches the caller (if any) and the detector.
\<close>

definition ensureInitialized_run ::
  "externals \<Rightarrow> string + ErrorRule list \<Rightarrow> int \<Rightarrow> ensure_status \<Rightarrow> ErrorRuleDetector
     \<Rightarrow> (string option \<times> ErrorRuleDetector) option"
where
  "ensureInitialized_run ext fetched now st d =
     (case st of
        EnsureDone \<Rightarrow> Some (None, d)
      | EnsureWaits \<Rightarrow> None
      | EnsureReloads \<Rightarrow>
          (case reload_resume ext fetched now d of
             (None, d') \<Rightarrow> Some (None, ensureInitialized_mark d')
           | (Some message, d') \<Rightarrow> Some (Some message, d'))
      | EnsureReloaded \<Rightarrow> Some (None, ensureInitialized_mark d))"

definition ensureInitialized ::
  "externals \<Rightarrow> string + ErrorRule list \<Rightarrow> int \<Rightarrow> ErrorRuleDetector
     \<Rightarrow> (string option \<times> ErrorRuleDetector) option"
where
  "ensureInitialized ext fetched now d =
     (case ensureInitialized_start d of (st, d') \<Rightarrow> ensureInitialized_run ext fetched now st d')"

text \<open>
  \<^verbatim>\<open>detectAsync\<close>. The argument is \<open>None\<close> for \<^verbatim>\<open>null\<close> or \<^verbatim>\<open>undefined\<close>, which
  the guard \<^verbatim>\<open>!errorMessage\<close> admits. \<open>detectAsync_start\<close> is the code up to the
  \<^verbatim>\<open>await this.ensureInitialized()\<close>: it returns a result (\<open>Inl\<close>), or it has
  started \<^verbatim>\<open>ensureInitialized\<close> and waits for it (\<open>Inr\<close>).
  \<open>detectAsync_resume\<close> is the code after the \<^verbatim>\<open>await\<close>; each \<^verbatim>\<open>for\<close> loop
  with its \<^verbatim>\<open>return\<close> is \<^const>\<open>find\<close>.
\<close>

definition detectAsync_start ::
  "ErrorRuleDetector \<Rightarrow> string option
     \<Rightarrow> (ErrorDetectionResult + string \<times> ensure_status) \<times> ErrorRuleDetector"
where
  "detectAsync_start d errorMessage =
     (case errorMessage of
        None \<Rightarrow> (Inl notMatched, d)
      | Some m \<Rightarrow>
          if length m = 0 then (Inl notMatched, d)
          else (case ensureInitialized_start d of (st, d') \<Rightarrow> (Inr (m, st), d')))"

definition detectAsync_resume :: "ErrorRuleDetector \<Rightarrow> string \<Rightarrow> ErrorDetectionResult" where
  "detectAsync_resume d errorMessage =
     (let lowerMessage = toLowerCase errorMessage;
          trimmedMessage = trim lowerMessage
      in case find (\<lambda>p. includes_str lowerMessage (cp_text p)) (containsPatterns d) of
           Some p \<Rightarrow>
             \<lparr>matched = True, category = Some (cp_category p), pattern = Some (cp_text p),
              matchType = Some ''contains''\<rparr>
         | None \<Rightarrow>
             (case map_of (exactPatterns d) trimmedMessage of
                Some exactMatch \<Rightarrow>
                  \<lparr>matched = True, category = Some (ep_category exactMatch),
                   pattern = Some (ep_text exactMatch), matchType = Some ''exact''\<rparr>
              | None \<Rightarrow>
                  (case find (\<lambda>r. test (rx_pattern r) errorMessage) (regexPatterns d) of
                     Some r \<Rightarrow>
                       \<lparr>matched = True, category = Some (rx_category r),
                        pattern = Some (source (rx_pattern r)), matchType = Some ''regex''\<rparr>
                   | None \<Rightarrow> notMatched)))"

text \<open>
  A call of \<^verbatim>\<open>detectAsync\<close> with nothing else running in between: \<open>None\<close> when
  it does not return, else the promise's outcome (\<open>Inl\<close> a rejection, \<open>Inr\<close> the
  result) and the detector.
\<close>

definition detectAsync ::
  "externals \<Rightarrow> string + ErrorRule list \<Rightarrow> int \<Rightarrow> ErrorRuleDetector \<Rightarrow> string option
     \<Rightarrow> ((string + ErrorDetectionResult) \<times> ErrorRuleDetector) option"
where
  "detectAsync ext fetched now d errorMessage =
     (case detectAsync_start d errorMessage of
        (Inl r, d') \<Rightarrow> Some (Inr r, d')
      | (Inr (m, st), d') \<Rightarrow>
          (case ensureInitialized_run ext fetched now st d' of
             None \<Rightarrow> None
           | Some (Some message, d'') \<Rightarrow> Some (Inl message, d'')
           | Some (None, d'') \<Rightarrow> Some (Inr (detectAsync_resume d'' m), d'')))"

text \<open>
  The synchronous \<^verbatim>\<open>detect\<close>: the result, the state in which the
  \<^verbatim>\<open>ensureInitialized\<close> call it started was left (if it started one; nobody
  awaits that call), and the detector.
\<close>

definition detect ::
  "ErrorRuleDetector \<Rightarrow> string option
     \<Rightarrow> ErrorDetectionResult \<times> ensure_status option \<times> ErrorRuleDetector"
where
  "detect d errorMessage =
     (if \<not> isInitialized d then
        (case ensureInitialized_start d of (st, d') \<Rightarrow> (notMatched, Some st, d'))
      else
        (case errorMessage of
           None \<Rightarrow> (notMatched, None, d)
         | Some m \<Rightarrow>
             if length m = 0 then (notMatched, None, d)
             else
               (let lowerMessage = toLowerCase m;
                    trimmedMessage = trim lowerMessage
                in case find (\<lambda>p. includes_str lowerMessage (cp_text p)) (containsPatterns d) of
                     Some p \<Rightarrow>
                       (\<lparr>matched = True, category = Some (cp_category p),
                         pattern = Some (cp_text p), matchType = Some ''contains''\<rparr>, None, d)
                   | None \<Rightarrow>
                       (case map_of (exactPatterns d) trimmedMessage of
                          Some exactMatch \<Rightarrow>
                            (\<lparr>matched = True, category = Some (ep_category exactMatch),
                              pattern = Some (ep_text exactMatch),
                              matchType = Some ''exact''\<rparr>, None, d)
                        | None \<Rightarrow>
                            (case find (\<lambda>r. test (rx_pattern r) m) (regexPatterns d) of
                               Some r \<Rightarrow>
                                 (\<lparr>matched = True, category = Some (rx_category r),
                                   pattern = Some (source (rx_pattern r)),
                                   matchType = Some ''regex''\<rparr>, None, d)
                             | None \<Rightarrow> (notMatched, None, d))))))"

section \<open>getStats and isEmpty\<close>

record Stats =
  regexCount :: nat
  containsCount :: nat
  exactCount :: nat
  totalCount :: nat
  stats_lastReloadTime :: int
  stats_isLoading :: bool

definition getStats :: "ErrorRuleDetector \<Rightarrow> Stats" where
  "getStats d =
     \<lparr>regexCount = length (regexPatterns d),
      containsCount = length (containsPatterns d),
      exactCount = length (exactPatterns d),
      totalCount = length (regexPatterns d) + length (containsPatterns d) + length (exactPatterns d),
      stats_lastReloadTime = lastReloadTime d,
      stats_isLoading = isLoading d\<rparr>"

definition isEmpty :: "ErrorRuleDetector \<Rightarrow> bool" where
  "isEmpty d =
     (length (regexPatterns d) = 0 \<and> length (containsPatterns d) = 0 \<and>
      length (exactPatterns d) = 0)"

section \<open>Calls that overlap\<close>

text \<open>
  The runtime runs one piece of code at a time, from one suspension point to
  the next, and calls overlap only at their suspension points. A suspended call
  is a task; the system is the detector, the suspended calls, the number of
  queries sent to the rule store so far, and what the calls have returned so
  far.

  A suspended \<^verbatim>\<open>ensureInitialized\<close> remembers who awaits it: a \<^verbatim>\<open>detectAsync\<close>
  call with its message, or nobody (the synchronous \<^verbatim>\<open>detect\<close> starts it and
  does not wait).

  The suspended calls are: a \<^verbatim>\<open>reload\<close> that waits for the store
  (\<open>ReloadFetching\<close>); an \<^verbatim>\<open>ensureInitialized\<close> whose reload waits for the store
  (\<open>EnsureFetching\<close>), whose reload has returned and whose last line is still to
  run (\<open>EnsureMarking\<close>), or which polls the loading flag (\<open>EnsurePolling\<close>);
  and a \<^verbatim>\<open>detectAsync\<close> whose \<^verbatim>\<open>ensureInitialized\<close> has returned and whose
  matching code is still to run (\<open>DetectMatching\<close>).

  What is observed of a run: the calls that return, with their results, and
  the promises that reject.
\<close>

datatype awaiter =
    Detached
  | DetectAsyncCall string

datatype task =
    ReloadFetching
  | EnsureFetching awaiter
  | EnsureMarking awaiter
  | EnsurePolling awaiter
  | DetectMatching string

datatype observation =
    ReloadReturned
  | EnsureReturned
  | DetectReturned ErrorDetectionResult
  | DetectAsyncReturned ErrorDetectionResult
  | Rejected string

record system =
  detector :: ErrorRuleDetector
  tasks :: "task list"
  fetches :: nat
  trace :: "observation list"

definition init_system :: system where
  "init_system = \<lparr>detector = new_ErrorRuleDetector, tasks = [], fetches = 0, trace = []\<rparr>"

text \<open>
  What the environment does: it calls one of the three entry points
  (\<open>CallReload\<close> is also what the handler of the \<^verbatim>\<open>errorRulesUpdated\<close> event
  does), it delivers the store's answer to the task at a position (with the
  clock's value at that moment), or it lets the task at a position run on (its
  awaited call has returned, or its timer has fired). An event that names no
  task, or a task that does not wait for it, changes nothing.
\<close>

datatype event =
    CallReload
  | CallDetect "string option"
  | CallDetectAsync "string option"
  | FetchSettles nat "string + ErrorRule list" int
  | Resume nat

definition remove_task :: "nat \<Rightarrow> task list \<Rightarrow> task list" where
  "remove_task i ts = take i ts @ drop (Suc i) ts"

definition ensure_returns :: "awaiter \<Rightarrow> system \<Rightarrow> system" where
  "ensure_returns w sys =
     (case w of
        Detached \<Rightarrow> sys\<lparr>trace := trace sys @ [EnsureReturned]\<rparr>
      | DetectAsyncCall m \<Rightarrow>
          sys\<lparr>tasks := tasks sys @ [DetectMatching m], trace := trace sys @ [EnsureReturned]\<rparr>)"

definition ensure_started :: "awaiter \<Rightarrow> ensure_status \<Rightarrow> system \<Rightarrow> system" where
  "ensure_started w st sys =
     (case st of
        EnsureDone \<Rightarrow> ensure_returns w sys
      | EnsureWaits \<Rightarrow> sys\<lparr>tasks := tasks sys @ [EnsurePolling w]\<rparr>
      | EnsureReloads \<Rightarrow>
          sys\<lparr>tasks := tasks sys @ [EnsureFetching w], fetches := Suc (fetches sys)\<rparr>
      | EnsureReloaded \<Rightarrow> sys\<lparr>tasks := tasks sys @ [EnsureMarking w]\<rparr>)"

fun step :: "externals \<Rightarrow> event \<Rightarrow> system \<Rightarrow> system" where
  "step ext CallReload sys =
     (case reload_start (detector sys) of
        (True, d') \<Rightarrow>
          sys\<lparr>detector := d', tasks := tasks sys @ [ReloadFetching], fetches := Suc (fetches sys)\<rparr>
      | (False, d') \<Rightarrow> sys\<lparr>detector := d', trace := trace sys @ [ReloadReturned]\<rparr>)"
| "step ext (CallDetect errorMessage) sys =
     (case detect (detector sys) errorMessage of
        (r, started, d') \<Rightarrow>
          (let sys1 = (case started of
                         None \<Rightarrow> sys\<lparr>detector := d'\<rparr>
                       | Some st \<Rightarrow> ensure_started Detached st (sys\<lparr>detector := d'\<rparr>))
           in sys1\<lparr>trace := trace sys1 @ [DetectReturned r]\<rparr>))"
| "step ext (CallDetectAsync errorMessage) sys =
     (case detectAsync_start (detector sys) errorMessage of
        (Inl r, d') \<Rightarrow> sys\<lparr>detector := d', trace := trace sys @ [DetectAsyncReturned r]\<rparr>
      | (Inr (m, st), d') \<Rightarrow> ensure_started (DetectAsyncCall m) st (sys\<lparr>detector := d'\<rparr>))"
| "step ext (FetchSettles i fetched now) sys =
     (if i < length (tasks sys) then
        (case tasks sys ! i of
           ReloadFetching \<Rightarrow>
             (case reload_resume ext fetched now (detector sys) of
                (None, d') \<Rightarrow>
                  sys\<lparr>detector := d', tasks := remove_task i (tasks sys),
                      trace := trace sys @ [ReloadReturned]\<rparr>
              | (Some message, d') \<Rightarrow>
                  sys\<lparr>detector := d', tasks := remove_task i (tasks sys),
                      trace := trace sys @ [Rejected message]\<rparr>)
         | EnsureFetching w \<Rightarrow>
             (case reload_resume ext fetched now (detector sys) of
                (None, d') \<Rightarrow> sys\<lparr>detector := d', tasks := (tasks sys)[i := EnsureMarking w]\<rparr>
              | (Some message, d') \<Rightarrow>
                  sys\<lparr>detector := d', tasks := remove_task i (tasks sys),
                      trace := trace sys @ [Rejected message]\<rparr>)
         | _ \<Rightarrow> sys)
      else sys)"
| "step ext (Resume i) sys =
     (if i < length (tasks sys) then
        (case tasks sys ! i of
           EnsureMarking w \<Rightarrow>
             ensure_returns w
               (sys\<lparr>detector := ensureInitialized_mark (detector sys),
                    tasks := remove_task i (tasks sys)\<rparr>)
         | EnsurePolling w \<Rightarrow>
             (if ensureInitialized_poll (detector sys) then sys
              else ensure_returns w (sys\<lparr>tasks := remove_task i (tasks sys)\<rparr>))
         | DetectMatching m \<Rightarrow>
             sys\<lparr>tasks := remove_task i (tasks sys),
                 trace := trace sys @ [DetectAsyncReturned (detectAsync_resume (detector sys) m)]\<rparr>
         | _ \<Rightarrow> sys)
      else sys)"

definition run :: "externals \<Rightarrow> event list \<Rightarrow> system \<Rightarrow> system" where
  "run ext evs sys = foldl (\<lambda>s ev. step ext ev s) sys evs"

text \<open>The number of suspended calls that wait for an answer of the rule store.\<close>

fun fetching :: "task \<Rightarrow> bool" where
  "fetching ReloadFetching = True"
| "fetching (EnsureFetching w) = True"
| "fetching t = False"

definition inFlight :: "task list \<Rightarrow> nat" where
  "inFlight ts = length (filter fetching ts)"

section \<open>Vocabulary of the properties\<close>

text \<open>
  The part of the detector that a reload replaces: the three indices and the
  time of the last reload.
\<close>

definition snapshot ::
  "ErrorRuleDetector \<Rightarrow>
     ContainsPattern list \<times> (string \<times> ExactPattern) list \<times> RegexPattern list \<times> int"
where
  "snapshot d = (containsPatterns d, exactPatterns d, regexPatterns d, lastReloadTime d)"

text \<open>The events in which the rule store delivers rules to a waiting call.\<close>

fun delivers_rules :: "event \<Rightarrow> bool" where
  "delivers_rules (FetchSettles i (Inr rules) now) = True"
| "delivers_rules ev = False"

text \<open>
  A result is well formed when the three optional fields are all present in a
  match, with one of the three tier names, and all absent otherwise.
\<close>

definition wellFormed :: "ErrorDetectionResult \<Rightarrow> bool" where
  "wellFormed r =
     (if matched r
      then category r \<noteq> None \<and> pattern r \<noteq> None \<and>
           (matchType r = Some ''contains'' \<or> matchType r = Some ''exact'' \<or>
            matchType r = Some ''regex'')
      else category r = None \<and> pattern r = None \<and> matchType r = None)"

fun observed_wellFormed :: "observation \<Rightarrow> bool" where
  "observed_wellFormed (DetectReturned r) = wellFormed r"
| "observed_wellFormed (DetectAsyncReturned r) = wellFormed r"
| "observed_wellFormed obs = True"

text \<open>
  What the loader does with a regex rule, in the words of the specification: a
  rule is rejected when the safety screen answers false, and it cannot be
  compiled when the screen passes it and the compiler throws.
\<close>

definition rejected :: "externals \<Rightarrow> ErrorRule \<Rightarrow> bool" where
  "rejected ext rule =
     (rule_matchType rule = ''regex'' \<and> safeRegex ext (rule_pattern rule) = Some False)"

definition uncompilable :: "externals \<Rightarrow> ErrorRule \<Rightarrow> bool" where
  "uncompilable ext rule =
     (rule_matchType rule = ''regex'' \<and> safeRegex ext (rule_pattern rule) = Some True \<and>
      newRegExp ext (rule_pattern rule) = None)"

text \<open>
  The entries that the specification asks for: one containment entry for each
  \<^verbatim>\<open>contains\<close> rule, one regex entry for each \<^verbatim>\<open>regex\<close> rule that passes the
  screen and compiles.
\<close>

definition containsEntry :: "ErrorRule \<Rightarrow> ContainsPattern" where
  "containsEntry rule =
     \<lparr>cp_text = toLowerCase (rule_pattern rule), cp_category = rule_category rule,
      cp_description = rule_description rule\<rparr>"

definition regexEntry :: "externals \<Rightarrow> ErrorRule \<Rightarrow> RegexPattern option" where
  "regexEntry ext rule =
     (if rule_matchType rule = ''regex'' \<and> safeRegex ext (rule_pattern rule) = Some True
      then map_option
             (\<lambda>re. \<lparr>rx_pattern = re, rx_category = rule_category rule,
                     rx_description = rule_description rule\<rparr>)
             (newRegExp ext (rule_pattern rule))
      else None)"

text \<open>A text that begins or ends with white space.\<close>

definition padded :: "string \<Rightarrow> bool" where
  "padded s = (s \<noteq> [] \<and> (isWhiteSpace (hd s) \<or> isWhiteSpace (last s)))"

text \<open>
  Mutual exclusion of reloads: a call waits for the rule store exactly when the
  loading flag is set, and then it is the only one.
\<close>

definition exclusive :: "system \<Rightarrow> bool" where
  "exclusive sys = (inFlight (tasks sys) = (if isLoading (detector sys) then 1 else 0))"

subsection \<open>A concrete instance\<close>

text \<open>
  An instance on which the theorems below are evaluated: a safety screen that
  refuses the pattern \<^verbatim>\<open>(a+)+$\<close>, a compiler that refuses the pattern \<^verbatim>\<open>[\<close> and
  otherwise reads a pattern as literal text to be found anywhere, ignoring case;
  nine rules; and the detector after loading them at time 5.
\<close>

definition example_externals :: externals where
  "example_externals =
     \<lparr>safeRegex = (\<lambda>p. Some (p \<noteq> ''(a+)+$'')),
      newRegExp = (\<lambda>p. if p = ''['' then None
                        else Some \<lparr>source = p,
                                   test = (\<lambda>s. includes_str (toLowerCase s) (toLowerCase p))\<rparr>)\<rparr>"

definition example_rules :: "ErrorRule list" where
  "example_rules =
     [\<lparr>rule_pattern = ''quota'', rule_category = ''limit'',
       rule_matchType = ''contains'', rule_description = None\<rparr>,
      \<lparr>rule_pattern = ''Error'', rule_category = ''generic'',
       rule_matchType = ''contains'', rule_description = None\<rparr>,
      \<lparr>rule_pattern = ''error: timeout'', rule_category = ''timeout'',
       rule_matchType = ''contains'', rule_description = None\<rparr>,
      \<lparr>rule_pattern = ''out of memory'', rule_category = ''oom'',
       rule_matchType = ''exact'', rule_description = Some ''memory''\<rparr>,
      \<lparr>rule_pattern = ''(a+)+$'', rule_category = ''redos'',
       rule_matchType = ''regex'', rule_description = None\<rparr>,
      \<lparr>rule_pattern = ''['', rule_category = ''broken'',
       rule_matchType = ''regex'', rule_description = None\<rparr>,
      \<lparr>rule_pattern = ''refused'', rule_category = ''network'',
       rule_matchType = ''regex'', rule_description = None\<rparr>,
      \<lparr>rule_pattern = ''fail'', rule_category = ''failure'',
       rule_matchType = ''regex'', rule_description = None\<rparr>,
      \<lparr>rule_pattern = '' padded '', rule_category = ''unreachable'',
       rule_matchType = ''exact'', rule_description = None\<rparr>]"

definition example_detector :: ErrorRuleDetector where
  "example_detector = snd (reload example_externals (Inr example_rules) 5 new_ErrorRuleDetector)"

section \<open>Facts about text\<close>

lemma isWhiteSpace_toLowerCaseUnit: "isWhiteSpace (toLowerCaseUnit c) = isWhiteSpace c"
proof -
  have "of_char c < (256 :: nat)"
    by simp
  then show ?thesis
    by (auto simp: isWhiteSpace_def toLowerCaseUnit_def Let_def)
qed

lemma padded_toLowerCase: "padded (toLowerCase s) = padded s"
  by (cases "s = []")
     (simp_all add: padded_def toLowerCase_def hd_map last_map isWhiteSpace_toLowerCaseUnit)

lemma dropWhile_hd: "dropWhile P xs \<noteq> [] \<Longrightarrow> \<not> P (hd (dropWhile P xs))"
  by (simp add: hd_dropWhile)

lemma dropWhile_last: "dropWhile P xs \<noteq> [] \<Longrightarrow> last (dropWhile P xs) = last xs"
  by (induction xs) (auto split: if_splits)

lemma trim_not_padded: "\<not> padded (trim s)"
proof (cases "trim s = []")
  case True
  then show ?thesis by (simp add: padded_def)
next
  case False
  define ys where "ys = dropWhile isWhiteSpace s"
  define zs where "zs = dropWhile isWhiteSpace (rev ys)"
  have t: "trim s = rev zs"
    by (simp add: trim_def ys_def zs_def)
  with False have zs: "zs \<noteq> []"
    by simp
  have ys: "ys \<noteq> []"
  proof
    assume "ys = []"
    then have "zs = []" by (simp add: zs_def)
    with zs show False by simp
  qed
  from zs have "\<not> isWhiteSpace (hd zs)"
    unfolding zs_def by (rule dropWhile_hd)
  with zs t have l: "\<not> isWhiteSpace (last (trim s))"
    by (simp add: last_rev)
  from zs have "last zs = last (rev ys)"
    unfolding zs_def by (rule dropWhile_last)
  with ys have "last zs = hd ys"
    by (simp add: last_rev)
  moreover from ys have "\<not> isWhiteSpace (hd ys)"
    unfolding ys_def by (rule dropWhile_hd)
  ultimately have h: "\<not> isWhiteSpace (hd (trim s))"
    using zs t by (simp add: hd_rev)
  from l h show ?thesis by (simp add: padded_def)
qed

lemma padded_unreachable: "padded p \<Longrightarrow> trim (toLowerCase m) \<noteq> toLowerCase p"
  using trim_not_padded [of "toLowerCase m"] padded_toLowerCase [of p] by auto

section \<open>Facts about the loader\<close>

lemma reload_resume_rejected:
  "reload_resume ext (Inl message) now d = (None, d\<lparr>isLoading := False\<rparr>)"
  by (simp add: reload_resume_def reload_try_def)

lemma reload_resume_fulfils: "fst (reload_resume ext fetched now d) = None"
  by (simp add: reload_resume_def split: prod.splits option.splits)

lemma reload_resume_idle: "\<not> isLoading (snd (reload_resume ext fetched now d))"
  by (simp add: reload_resume_def split: prod.splits option.splits)

lemma loadRule_flags:
  "isLoading (fst (loadRule ext rule acc)) = isLoading (fst acc) \<and>
   isInitialized (fst (loadRule ext rule acc)) = isInitialized (fst acc) \<and>
   lastReloadTime (fst (loadRule ext rule acc)) = lastReloadTime (fst acc)"
  by (cases acc) (simp add: loadRule_def Let_def split: option.splits bool.splits)

lemma loadRules_flags:
  "isLoading (fst (loadRules ext rules acc)) = isLoading (fst acc) \<and>
   isInitialized (fst (loadRules ext rules acc)) = isInitialized (fst acc) \<and>
   lastReloadTime (fst (loadRules ext rules acc)) = lastReloadTime (fst acc)"
  unfolding loadRules_def
  by (induction rules arbitrary: acc) (simp_all add: loadRule_flags)

lemma reload_resume_delivered:
  "isInitialized (snd (reload_resume ext (Inr rules) now d)) \<and>
   lastReloadTime (snd (reload_resume ext (Inr rules) now d)) = now"
  by (simp add: reload_resume_def reload_try_def split: prod.splits)

lemma reload_rejected: "reload ext (Inl message) now d = (None, d)"
  by (simp add: reload_def reload_start_def reload_resume_rejected)

lemma loadRules_Nil: "loadRules ext [] acc = acc"
  by (simp add: loadRules_def)

lemma loadRules_Cons: "loadRules ext (rule # rules) acc = loadRules ext rules (loadRule ext rule acc)"
  by (simp add: loadRules_def)

lemma loadRule_rejected: "rejected ext rule \<Longrightarrow> loadRule ext rule (d, v, k) = (d, v, Suc k)"
  by (simp add: loadRule_def rejected_def)

lemma loadRule_uncompilable: "uncompilable ext rule \<Longrightarrow> loadRule ext rule (d, v, k) = (d, v, k)"
  by (simp add: loadRule_def uncompilable_def)

lemma loadRule_skipped:
  "snd (snd (loadRule ext rule (d, v, k))) = (if rejected ext rule then Suc k else k)"
  by (simp add: loadRule_def rejected_def Let_def split: option.splits bool.splits)

lemma loadRule_counters:
  "fst (loadRule ext rule (d, v, k)) = fst (loadRule ext rule (d, v', k'))"
  by (simp add: loadRule_def Let_def split: option.splits bool.splits)

lemma loadRules_counters:
  "fst (loadRules ext rules (d, v, k)) = fst (loadRules ext rules (d, v', k'))"
proof (induction rules arbitrary: d v k v' k')
  case Nil
  show ?case by (simp add: loadRules_Nil)
next
  case (Cons rule rules)
  obtain d1 v1 k1 where a: "loadRule ext rule (d, v, k) = (d1, v1, k1)"
    by (cases "loadRule ext rule (d, v, k)") auto
  obtain d2 v2 k2 where b: "loadRule ext rule (d, v', k') = (d2, v2, k2)"
    by (cases "loadRule ext rule (d, v', k')") auto
  from a b loadRule_counters [of ext rule d v k v' k'] have "d1 = d2" by simp
  with a b Cons.IH [of d1 v1 k1 v2 k2] show ?case by (simp add: loadRules_Cons)
qed

lemma loadRules_remaining:
  "fst (loadRules ext rules (d, v, k)) =
   fst (loadRules ext (filter (\<lambda>r. \<not> rejected ext r \<and> \<not> uncompilable ext r) rules) (d, v, k))"
proof (induction rules arbitrary: d v k)
  case Nil
  show ?case by simp
next
  case (Cons rule rules)
  show ?case
  proof (cases "rejected ext rule \<or> uncompilable ext rule")
    case True
    then obtain k' where "loadRule ext rule (d, v, k) = (d, v, k')"
      using loadRule_rejected loadRule_uncompilable by blast
    with True Cons.IH [of d v k'] loadRules_counters [of ext _ d v k' v k] show ?thesis
      by (auto simp: loadRules_Cons)
  next
    case False
    obtain d1 v1 k1 where "loadRule ext rule (d, v, k) = (d1, v1, k1)"
      by (cases "loadRule ext rule (d, v, k)") auto
    with False Cons.IH [of d1 v1 k1] show ?thesis
      by (simp add: loadRules_Cons)
  qed
qed

lemma loadRules_skipped:
  "snd (snd (loadRules ext rules (d, v, k))) = k + length (filter (rejected ext) rules)"
proof (induction rules arbitrary: d v k)
  case Nil
  show ?case by (simp add: loadRules_Nil)
next
  case (Cons rule rules)
  obtain d1 v1 k1 where a: "loadRule ext rule (d, v, k) = (d1, v1, k1)"
    by (cases "loadRule ext rule (d, v, k)") auto
  with loadRule_skipped [of ext rule d v k] have "k1 = (if rejected ext rule then Suc k else k)"
    by simp
  with a Cons.IH [of d1 v1 k1] show ?case by (simp add: loadRules_Cons)
qed

lemma loadRule_regexPatterns:
  "regexPatterns (fst (loadRule ext rule (d, v, k))) =
   regexPatterns d @ (case regexEntry ext rule of None \<Rightarrow> [] | Some x \<Rightarrow> [x])"
  by (simp add: loadRule_def regexEntry_def Let_def split: option.splits bool.splits)

lemma loadRules_regexPatterns:
  "regexPatterns (fst (loadRules ext rules (d, v, k))) =
   regexPatterns d @ List.map_filter (regexEntry ext) rules"
proof (induction rules arbitrary: d v k)
  case Nil
  show ?case by (simp add: loadRules_Nil map_filter_simps)
next
  case (Cons rule rules)
  obtain d1 v1 k1 where a: "loadRule ext rule (d, v, k) = (d1, v1, k1)"
    by (cases "loadRule ext rule (d, v, k)") auto
  with loadRule_regexPatterns [of ext rule d v k]
  have "regexPatterns d1 =
          regexPatterns d @ (case regexEntry ext rule of None \<Rightarrow> [] | Some x \<Rightarrow> [x])"
    by simp
  with a Cons.IH [of d1 v1 k1] show ?case
    by (simp add: loadRules_Cons map_filter_simps split: option.splits)
qed

lemma loadRule_containsPatterns:
  "containsPatterns (fst (loadRule ext rule (d, v, k))) =
   containsPatterns d @ (if rule_matchType rule = ''contains'' then [containsEntry rule] else [])"
  by (simp add: loadRule_def containsEntry_def Let_def split: option.splits bool.splits)

lemma loadRules_containsPatterns:
  "containsPatterns (fst (loadRules ext rules (d, v, k))) =
   containsPatterns d @
     map containsEntry (filter (\<lambda>r. rule_matchType r = ''contains'') rules)"
proof (induction rules arbitrary: d v k)
  case Nil
  show ?case by (simp add: loadRules_Nil)
next
  case (Cons rule rules)
  obtain d1 v1 k1 where a: "loadRule ext rule (d, v, k) = (d1, v1, k1)"
    by (cases "loadRule ext rule (d, v, k)") auto
  with loadRule_containsPatterns [of ext rule d v k]
  have "containsPatterns d1 =
          containsPatterns d @
            (if rule_matchType rule = ''contains'' then [containsEntry rule] else [])"
    by simp
  with a Cons.IH [of d1 v1 k1] show ?case
    by (simp add: loadRules_Cons)
qed

lemma reload_resume_loaded:
  "reload_resume ext (Inr rules) now d =
     (None, (fst (loadRules ext rules
                   (d\<lparr>regexPatterns := [], containsPatterns := [], exactPatterns := []\<rparr>, 0, 0)))
              \<lparr>lastReloadTime := now, isInitialized := True, isLoading := False\<rparr>)"
  by (simp add: reload_resume_def reload_try_def split: prod.splits)

lemma reload_resume_regexPatterns:
  "regexPatterns (snd (reload_resume ext (Inr rules) now d)) = List.map_filter (regexEntry ext) rules"
  by (simp add: reload_resume_loaded loadRules_regexPatterns)

lemma reload_resume_containsPatterns:
  "containsPatterns (snd (reload_resume ext (Inr rules) now d)) =
     map containsEntry (filter (\<lambda>r. rule_matchType r = ''contains'') rules)"
  by (simp add: reload_resume_loaded loadRules_containsPatterns)

lemma regexEntry_origin:
  assumes "x \<in> set (List.map_filter (regexEntry ext) rules)"
  shows "\<exists>r\<in>set rules. \<not> rejected ext r \<and> \<not> uncompilable ext r \<and>
           rule_matchType r = ''regex'' \<and>
           safeRegex ext (rule_pattern r) = Some True \<and>
           newRegExp ext (rule_pattern r) = Some (rx_pattern x) \<and>
           rx_category x = rule_category r"
proof -
  from assms obtain r where r: "r \<in> set rules" "regexEntry ext r = Some x"
    by (auto simp: map_filter_def)
  then have "rule_matchType r = ''regex'' \<and> safeRegex ext (rule_pattern r) = Some True \<and>
      newRegExp ext (rule_pattern r) = Some (rx_pattern x) \<and> rx_category x = rule_category r"
    by (auto simp: regexEntry_def split: if_splits)
  moreover from this have "\<not> rejected ext r" "\<not> uncompilable ext r"
    by (simp_all add: rejected_def uncompilable_def)
  ultimately show ?thesis using r(1) by blast
qed

text \<open>Every entry that the loader puts into the exact index is stored under its own text.\<close>

lemma loadRule_exactPatterns:
  "map_of (exactPatterns (fst (loadRule ext rule (d, v, k)))) =
     (if rule_matchType rule = ''exact''
      then (map_of (exactPatterns d))
             (toLowerCase (rule_pattern rule) \<mapsto>
                \<lparr>ep_text = toLowerCase (rule_pattern rule), ep_category = rule_category rule,
                 ep_description = rule_description rule\<rparr>)
      else map_of (exactPatterns d))"
  by (simp add: loadRule_def Let_def update_conv' split: option.splits bool.splits)

lemma loadRule_keyed:
  assumes "\<And>key e. map_of (exactPatterns d) key = Some e \<Longrightarrow> ep_text e = key"
    and "map_of (exactPatterns (fst (loadRule ext rule (d, v, k)))) key = Some e"
  shows "ep_text e = key"
  using assms by (auto simp: loadRule_exactPatterns split: if_splits)

lemma loadRules_keyed:
  assumes "\<And>key e. map_of (exactPatterns d) key = Some e \<Longrightarrow> ep_text e = key"
    and "map_of (exactPatterns (fst (loadRules ext rules (d, v, k)))) key = Some e"
  shows "ep_text e = key"
  using assms
proof (induction rules arbitrary: d v k)
  case Nil
  then show ?case by (simp add: loadRules_Nil)
next
  case (Cons rule rules)
  obtain d1 v1 k1 where a: "loadRule ext rule (d, v, k) = (d1, v1, k1)"
    by (cases "loadRule ext rule (d, v, k)") auto
  have "\<And>key e. map_of (exactPatterns d1) key = Some e \<Longrightarrow> ep_text e = key"
    using loadRule_keyed [where d = d and ext = ext and rule = rule and v = v and k = k]
      Cons.prems(1) a by simp
  with Cons.IH [of d1 v1 k1] Cons.prems(2) a show ?case
    by (simp add: loadRules_Cons)
qed

lemma reload_resume_keyed:
  assumes "map_of (exactPatterns (snd (reload_resume ext (Inr rules) now d))) key = Some e"
  shows "ep_text e = key"
  using assms
    loadRules_keyed [of "d\<lparr>regexPatterns := [], containsPatterns := [], exactPatterns := []\<rparr>"
      ext rules 0 0 key e]
  by (simp add: reload_resume_loaded)

section \<open>Facts about detection\<close>

lemma detectAsync_resume_wellFormed: "wellFormed (detectAsync_resume d m)"
  by (simp add: detectAsync_resume_def wellFormed_def Let_def split: option.splits)

lemma detect_wellFormed: "wellFormed (fst (detect d errorMessage))"
  by (simp add: detect_def wellFormed_def Let_def split: option.splits prod.splits)

lemma detectAsync_start_wellFormed:
  "detectAsync_start d errorMessage = (Inl r, d') \<Longrightarrow> wellFormed r"
  by (auto simp: detectAsync_start_def wellFormed_def split: option.splits if_splits prod.splits)

lemma ensureInitialized_run_fulfils:
  "ensureInitialized_run ext fetched now st d \<noteq> Some (Some message, d')"
proof (cases "reload_resume ext fetched now d")
  case (Pair t d'')
  with reload_resume_fulfils [of ext fetched now d] have "t = None" by simp
  with Pair show ?thesis
    by (simp add: ensureInitialized_run_def split: ensure_status.splits)
qed

lemma detectAsync_wellFormed:
  "(case detectAsync ext fetched now d errorMessage of
      None \<Rightarrow> True
    | Some (Inl message, d') \<Rightarrow> False
    | Some (Inr r, d') \<Rightarrow> wellFormed r)"
proof (cases "detectAsync_start d errorMessage")
  case (Pair a d1)
  show ?thesis
  proof (cases a)
    case (Inl r)
    with Pair show ?thesis
      by (simp add: detectAsync_def detectAsync_start_wellFormed)
  next
    case (Inr b)
    obtain m st where b: "b = (m, st)" by (cases b)
    show ?thesis
    proof (cases "ensureInitialized_run ext fetched now st d1")
      case None
      with Pair Inr b show ?thesis by (simp add: detectAsync_def)
    next
      case (Some res)
      obtain t d2 where res: "res = (t, d2)" by (cases res)
      with Some ensureInitialized_run_fulfils [of ext fetched now st d1] have "t = None"
        by (cases t) auto
      with Pair Inr b Some res show ?thesis
        by (simp add: detectAsync_def detectAsync_resume_wellFormed)
    qed
  qed
qed

lemma detect_initialized:
  "isInitialized d \<Longrightarrow> m \<noteq> [] \<Longrightarrow> detect d (Some m) = (detectAsync_resume d m, None, d)"
  by (simp add: detect_def detectAsync_resume_def Let_def split: option.splits)

lemma detect_absent:
  "isInitialized d \<Longrightarrow> errorMessage = None \<or> errorMessage = Some [] \<Longrightarrow>
   detect d errorMessage = (notMatched, None, d)"
  by (auto simp: detect_def)

lemma detectAsync_absent:
  "errorMessage = None \<or> errorMessage = Some [] \<Longrightarrow>
   detectAsync_start d errorMessage = (Inl notMatched, d) \<and>
   detectAsync ext fetched now d errorMessage = Some (Inr notMatched, d)"
  by (auto simp: detectAsync_def detectAsync_start_def)

lemma detectAsync_initialized:
  "isInitialized d \<Longrightarrow> m \<noteq> [] \<Longrightarrow>
   detectAsync ext fetched now d (Some m) = Some (Inr (detectAsync_resume d m), d)"
  by (simp add: detectAsync_def detectAsync_start_def ensureInitialized_start_def
      ensureInitialized_run_def)

lemma detect_uninitialized:
  "\<not> isInitialized d \<Longrightarrow> fst (detect d errorMessage) = notMatched"
  by (simp add: detect_def split: prod.splits)

lemma detect_agrees_sequential:
  "(isInitialized d \<longrightarrow>
      detectAsync ext fetched now d errorMessage = Some (Inr (fst (detect d errorMessage)), d) \<and>
      snd (detect d errorMessage) = (None, d)) \<and>
   (\<not> isInitialized d \<longrightarrow> fst (detect d errorMessage) = notMatched)"
proof (cases "errorMessage = None \<or> errorMessage = Some []")
  case True
  then show ?thesis
    using detect_absent [of d errorMessage] detectAsync_absent [of errorMessage d ext fetched now]
      detect_uninitialized [of d errorMessage]
    by auto
next
  case False
  then obtain m where "errorMessage = Some m" "m \<noteq> []"
    by (cases errorMessage) auto
  then show ?thesis
    using detect_initialized [of d m] detectAsync_initialized [of d m ext fetched now]
      detect_uninitialized [of d errorMessage]
    by auto
qed

lemma detect_absent_any:
  assumes "errorMessage = None \<or> errorMessage = Some []"
  shows "fst (detect d errorMessage) = notMatched \<and>
         (isInitialized d \<longrightarrow> detect d errorMessage = (notMatched, None, d)) \<and>
         (\<not> isInitialized d \<and> isLoading d \<longrightarrow>
            detect d errorMessage = (notMatched, Some EnsureWaits, d)) \<and>
         (\<not> isInitialized d \<and> \<not> isLoading d \<longrightarrow>
            detect d errorMessage = (notMatched, Some EnsureReloads, d\<lparr>isLoading := True\<rparr>))"
  using assms
  by (auto simp: detect_def ensureInitialized_start_def reload_start_def)

lemma ensureInitialized_idle:
  assumes "\<not> isInitialized d" and "\<not> isLoading d"
  shows "ensureInitialized_start d = (EnsureReloads, d\<lparr>isLoading := True\<rparr>) \<and>
         ensureInitialized ext fetched now d =
           Some (None, (snd (reload ext fetched now d))\<lparr>isInitialized := True\<rparr>) \<and>
         \<not> isLoading (snd (reload ext fetched now d))"
proof -
  obtain t d' where r: "reload_resume ext fetched now (d\<lparr>isLoading := True\<rparr>) = (t, d')"
    by (cases "reload_resume ext fetched now (d\<lparr>isLoading := True\<rparr>)") auto
  with reload_resume_fulfils [of ext fetched now "d\<lparr>isLoading := True\<rparr>"]
    reload_resume_idle [of ext fetched now "d\<lparr>isLoading := True\<rparr>"]
  have "t = None" "\<not> isLoading d'" by simp_all
  with assms r show ?thesis
    by (simp add: ensureInitialized_def ensureInitialized_start_def ensureInitialized_run_def
        ensureInitialized_mark_def reload_start_def reload_def)
qed

lemma ensureInitialized_ready:
  assumes "isInitialized d"
  shows "ensureInitialized_start d = (EnsureDone, d) \<and>
         ensureInitialized ext fetched now d = Some (None, d)"
  using assms
  by (simp add: ensureInitialized_def ensureInitialized_start_def ensureInitialized_run_def)

lemma find_first:
  assumes "i < length xs" and "P (xs ! i)" and "\<forall>j<i. \<not> P (xs ! j)"
  shows "find P xs = Some (xs ! i)"
  using assms by (auto simp: find_Some_iff)

lemma contains_tier:
  assumes "\<exists>p\<in>set (containsPatterns d). includes_str (toLowerCase m) (cp_text p)"
  shows "\<exists>c t. detectAsync_resume d m =
           \<lparr>matched = True, category = Some c, pattern = Some t, matchType = Some ''contains''\<rparr>"
proof -
  from assms obtain p where
    "find (\<lambda>p. includes_str (toLowerCase m) (cp_text p)) (containsPatterns d) = Some p"
    by (cases "find (\<lambda>p. includes_str (toLowerCase m) (cp_text p)) (containsPatterns d)")
       (auto simp: find_None_iff)
  then show ?thesis by (simp add: detectAsync_resume_def Let_def)
qed

lemma contains_tier_alone:
  assumes "\<exists>p\<in>set (containsPatterns d). includes_str (toLowerCase m) (cp_text p)"
  shows "detectAsync_resume (d\<lparr>exactPatterns := es, regexPatterns := rs\<rparr>) m =
         detectAsync_resume d m"
proof -
  from assms obtain p where
    "find (\<lambda>p. includes_str (toLowerCase m) (cp_text p)) (containsPatterns d) = Some p"
    by (cases "find (\<lambda>p. includes_str (toLowerCase m) (cp_text p)) (containsPatterns d)")
       (auto simp: find_None_iff)
  then show ?thesis by (simp add: detectAsync_resume_def Let_def)
qed

lemma contains_first:
  assumes "i < length (containsPatterns d)"
    and "includes_str (toLowerCase m) (cp_text (containsPatterns d ! i))"
    and "\<forall>j<i. \<not> includes_str (toLowerCase m) (cp_text (containsPatterns d ! j))"
  shows "detectAsync_resume d m =
           \<lparr>matched = True, category = Some (cp_category (containsPatterns d ! i)),
            pattern = Some (cp_text (containsPatterns d ! i)), matchType = Some ''contains''\<rparr>"
  using find_first [of i "containsPatterns d"
      "\<lambda>p. includes_str (toLowerCase m) (cp_text p)"] assms
  by (simp add: detectAsync_resume_def Let_def)

lemma exact_tier:
  assumes "\<forall>p\<in>set (containsPatterns d). \<not> includes_str (toLowerCase m) (cp_text p)"
    and "map_of (exactPatterns d) (trim (toLowerCase m)) = Some e"
  shows "detectAsync_resume d m =
           \<lparr>matched = True, category = Some (ep_category e), pattern = Some (ep_text e),
            matchType = Some ''exact''\<rparr>"
proof -
  from assms(1) have
    "find (\<lambda>p. includes_str (toLowerCase m) (cp_text p)) (containsPatterns d) = None"
    by (simp add: find_None_iff)
  with assms(2) show ?thesis by (simp add: detectAsync_resume_def Let_def)
qed

lemma exact_result:
  assumes "matchType (detectAsync_resume d m) = Some ''exact''"
  shows "\<exists>e. map_of (exactPatterns d) (trim (toLowerCase m)) = Some e \<and>
           pattern (detectAsync_resume d m) = Some (ep_text e)"
  using assms
  by (auto simp: detectAsync_resume_def Let_def split: option.splits)

lemma exact_tier_iff:
  assumes "\<forall>p\<in>set (containsPatterns d). \<not> includes_str (toLowerCase m) (cp_text p)"
  shows "(matchType (detectAsync_resume d m) = Some ''exact'') =
         (map_of (exactPatterns d) (trim (toLowerCase m)) \<noteq> None)"
proof -
  from assms have
    "find (\<lambda>p. includes_str (toLowerCase m) (cp_text p)) (containsPatterns d) = None"
    by (simp add: find_None_iff)
  then show ?thesis
    by (auto simp: detectAsync_resume_def Let_def split: option.splits)
qed

lemma exact_after_reload:
  assumes "matchType (detectAsync_resume (snd (reload_resume ext (Inr rules) now d)) m) =
             Some ''exact''"
  shows "pattern (detectAsync_resume (snd (reload_resume ext (Inr rules) now d)) m) =
           Some (trim (toLowerCase m)) \<and>
         (\<forall>r\<in>set rules. padded (rule_pattern r) \<longrightarrow>
            pattern (detectAsync_resume (snd (reload_resume ext (Inr rules) now d)) m) \<noteq>
              Some (toLowerCase (rule_pattern r)))"
proof -
  from exact_result [OF assms] obtain e where
    e: "map_of (exactPatterns (snd (reload_resume ext (Inr rules) now d))) (trim (toLowerCase m))
          = Some e"
      "pattern (detectAsync_resume (snd (reload_resume ext (Inr rules) now d)) m) =
          Some (ep_text e)"
    by blast
  from reload_resume_keyed [OF e(1)] e(2)
  have "pattern (detectAsync_resume (snd (reload_resume ext (Inr rules) now d)) m) =
          Some (trim (toLowerCase m))"
    by simp
  then show ?thesis using padded_unreachable by auto
qed

lemma regex_first:
  assumes "\<forall>p\<in>set (containsPatterns d). \<not> includes_str (toLowerCase m) (cp_text p)"
    and "map_of (exactPatterns d) (trim (toLowerCase m)) = None"
    and "i < length (regexPatterns d)"
    and "test (rx_pattern (regexPatterns d ! i)) m"
    and "\<forall>j<i. \<not> test (rx_pattern (regexPatterns d ! j)) m"
  shows "detectAsync_resume d m =
           \<lparr>matched = True, category = Some (rx_category (regexPatterns d ! i)),
            pattern = Some (source (rx_pattern (regexPatterns d ! i))),
            matchType = Some ''regex''\<rparr>"
proof -
  from assms(1) have
    "find (\<lambda>p. includes_str (toLowerCase m) (cp_text p)) (containsPatterns d) = None"
    by (simp add: find_None_iff)
  with assms(2) find_first [of i "regexPatterns d" "\<lambda>r. test (rx_pattern r) m"] assms(3-5)
  show ?thesis
    by (simp add: detectAsync_resume_def Let_def)
qed

lemma regex_result:
  assumes "matchType (detectAsync_resume d m) = Some ''regex''"
  shows "\<exists>x\<in>set (regexPatterns d). test (rx_pattern x) m \<and>
           detectAsync_resume d m =
             \<lparr>matched = True, category = Some (rx_category x),
              pattern = Some (source (rx_pattern x)), matchType = Some ''regex''\<rparr>"
proof (cases "find (\<lambda>r. test (rx_pattern r) m) (regexPatterns d)")
  case None
  with assms show ?thesis
    by (simp add: detectAsync_resume_def Let_def split: option.splits)
next
  case (Some x)
  then have "x \<in> set (regexPatterns d)" "test (rx_pattern x) m"
    by (auto simp: find_Some_iff)
  moreover from assms Some have "detectAsync_resume d m =
             \<lparr>matched = True, category = Some (rx_category x),
              pattern = Some (source (rx_pattern x)), matchType = Some ''regex''\<rparr>"
    by (simp add: detectAsync_resume_def Let_def split: option.splits)
  ultimately show ?thesis by blast
qed

lemma regex_result_origin:
  assumes "matchType (detectAsync_resume (snd (reload_resume ext (Inr rules) now d)) m) =
             Some ''regex''"
  shows "\<exists>r\<in>set rules. \<exists>re. \<not> rejected ext r \<and> \<not> uncompilable ext r \<and>
           newRegExp ext (rule_pattern r) = Some re \<and> test re m \<and>
           detectAsync_resume (snd (reload_resume ext (Inr rules) now d)) m =
             \<lparr>matched = True, category = Some (rule_category r), pattern = Some (source re),
              matchType = Some ''regex''\<rparr>"
proof -
  from regex_result [OF assms] obtain x where
    x: "x \<in> set (List.map_filter (regexEntry ext) rules)" "test (rx_pattern x) m"
      "detectAsync_resume (snd (reload_resume ext (Inr rules) now d)) m =
         \<lparr>matched = True, category = Some (rx_category x),
          pattern = Some (source (rx_pattern x)), matchType = Some ''regex''\<rparr>"
    by (auto simp: reload_resume_regexPatterns)
  from regexEntry_origin [OF x(1)] obtain r where
    "r \<in> set rules" "\<not> rejected ext r" "\<not> uncompilable ext r"
    "newRegExp ext (rule_pattern r) = Some (rx_pattern x)" "rx_category x = rule_category r"
    by blast
  with x(2,3) show ?thesis by auto
qed

lemma detect_after_reload:
  "fst (detect (snd (reload_resume ext (Inr rules) now d)) (Some m)) =
     (if m = [] then notMatched
      else detectAsync_resume (snd (reload_resume ext (Inr rules) now d)) m)"
  using detect_initialized [of "snd (reload_resume ext (Inr rules) now d)" m]
    detect_absent [of "snd (reload_resume ext (Inr rules) now d)" "Some m"]
  by (simp add: reload_resume_delivered)

lemma error_before_timeout:
  assumes "includes_str (toLowerCase m) ''error''"
  shows "detectAsync_resume
           (snd (reload_resume ext
              (Inr [\<lparr>rule_pattern = ''error'', rule_category = c1,
                     rule_matchType = ''contains'', rule_description = None\<rparr>,
                    \<lparr>rule_pattern = ''error: timeout'', rule_category = c2,
                     rule_matchType = ''contains'', rule_description = None\<rparr>]) now d)) m =
         \<lparr>matched = True, category = Some c1, pattern = Some ''error'',
          matchType = Some ''contains''\<rparr>"
proof -
  have lower: "toLowerCase ''error'' = ''error''"
    by code_simp
  with assms show ?thesis
    by (simp add: detectAsync_resume_def Let_def reload_resume_containsPatterns containsEntry_def)
qed

section \<open>Facts about calls that overlap\<close>

lemma step_detector:
  "detector (step ext ev sys) = detector sys \<or>
   detector (step ext ev sys) = (detector sys)\<lparr>isLoading := True\<rparr> \<or>
   (\<exists>fetched now. detector (step ext ev sys) = snd (reload_resume ext fetched now (detector sys))) \<or>
   detector (step ext ev sys) = ensureInitialized_mark (detector sys)"
proof (cases ev)
  case CallReload
  then show ?thesis by (simp add: reload_start_def)
next
  case (CallDetect m)
  then show ?thesis
    by (simp add: detect_def ensureInitialized_start_def reload_start_def ensure_started_def
        ensure_returns_def Let_def split: option.splits)
next
  case (CallDetectAsync m)
  then show ?thesis
    by (simp add: detectAsync_start_def ensureInitialized_start_def reload_start_def
        ensure_started_def ensure_returns_def split: option.splits)
next
  case (FetchSettles i fetched now)
  then have "detector (step ext ev sys) = detector sys \<or>
      detector (step ext ev sys) = snd (reload_resume ext fetched now (detector sys))"
    by (cases "reload_resume ext fetched now (detector sys)")
       (simp split: task.splits option.splits)
  then show ?thesis by blast
next
  case (Resume i)
  then show ?thesis
    by (auto simp: ensure_returns_def split: task.splits awaiter.splits)
qed

lemma run_Nil: "run ext [] sys = sys"
  by (simp add: run_def)

lemma run_snoc: "run ext (evs @ [ev]) sys = step ext ev (run ext evs sys)"
  by (simp add: run_def)

lemma run_Cons: "run ext (ev # evs) sys = run ext evs (step ext ev sys)"
  by (simp add: run_def)

lemma step_snapshot:
  assumes "\<not> delivers_rules ev"
  shows "snapshot (detector (step ext ev sys)) = snapshot (detector sys)"
proof (cases ev)
  case CallReload
  then show ?thesis by (simp add: reload_start_def snapshot_def)
next
  case (CallDetect m)
  then show ?thesis
    by (simp add: detect_def ensureInitialized_start_def reload_start_def ensure_started_def
        ensure_returns_def Let_def snapshot_def split: option.splits)
next
  case (CallDetectAsync m)
  then show ?thesis
    by (simp add: detectAsync_start_def ensureInitialized_start_def reload_start_def
        ensure_started_def ensure_returns_def snapshot_def split: option.splits)
next
  case (FetchSettles i fetched now)
  with assms obtain message where "fetched = Inl message"
    by (cases fetched) auto
  with FetchSettles show ?thesis
    by (simp add: reload_resume_rejected snapshot_def split: task.splits)
next
  case (Resume i)
  then show ?thesis
    by (auto simp: ensure_returns_def ensureInitialized_mark_def snapshot_def
        split: task.splits awaiter.splits)
qed

lemma run_snapshot:
  "\<forall>ev\<in>set evs. \<not> delivers_rules ev \<Longrightarrow>
   snapshot (detector (run ext evs sys)) = snapshot (detector sys)"
  by (induction evs arbitrary: sys) (simp_all add: run_Nil run_Cons step_snapshot)

lemma ensure_returns_trace:
  "trace (ensure_returns w sys) = trace sys @ [EnsureReturned]"
  by (simp add: ensure_returns_def split: awaiter.splits)

lemma ensure_returns_detector: "detector (ensure_returns w sys) = detector sys"
  by (simp add: ensure_returns_def split: awaiter.splits)

lemma ensure_started_trace:
  "trace (ensure_started w st sys) = trace sys \<or>
   trace (ensure_started w st sys) = trace sys @ [EnsureReturned]"
  by (simp add: ensure_started_def ensure_returns_trace split: ensure_status.splits)

lemma step_trace_wellFormed:
  assumes "\<forall>obs\<in>set (trace sys). observed_wellFormed obs"
  shows "\<forall>obs\<in>set (trace (step ext ev sys)). observed_wellFormed obs"
proof (cases ev)
  case CallReload
  with assms show ?thesis by (auto simp: reload_start_def)
next
  case (CallDetect m)
  obtain r started d' where dt: "detect (detector sys) m = (r, started, d')"
    by (cases "detect (detector sys) m") auto
  with detect_wellFormed [of "detector sys" m] have wf: "wellFormed r" by simp
  show ?thesis
  proof (cases started)
    case None
    with CallDetect dt wf assms show ?thesis by auto
  next
    case (Some st)
    from ensure_started_trace [of Detached st "sys\<lparr>detector := d'\<rparr>"]
    have "set (trace (ensure_started Detached st (sys\<lparr>detector := d'\<rparr>)))
            \<subseteq> set (trace sys) \<union> {EnsureReturned}"
      by auto
    with CallDetect dt wf assms Some show ?thesis by (auto simp: Let_def)
  qed
next
  case (CallDetectAsync m)
  obtain a d' where st: "detectAsync_start (detector sys) m = (a, d')"
    by (cases "detectAsync_start (detector sys) m") auto
  show ?thesis
  proof (cases a)
    case (Inl r)
    with st detectAsync_start_wellFormed have "wellFormed r" by blast
    with CallDetectAsync st Inl assms show ?thesis by auto
  next
    case (Inr b)
    obtain msg s where b: "b = (msg, s)" by (cases b)
    from ensure_started_trace [of "DetectAsyncCall msg" s "sys\<lparr>detector := d'\<rparr>"]
    have "set (trace (ensure_started (DetectAsyncCall msg) s (sys\<lparr>detector := d'\<rparr>)))
            \<subseteq> set (trace sys) \<union> {EnsureReturned}"
      by auto
    with CallDetectAsync st Inr b assms show ?thesis by auto
  qed
next
  case (FetchSettles i fetched now)
  with assms show ?thesis
    by (cases "reload_resume ext fetched now (detector sys)")
       (auto split: task.splits option.splits)
next
  case (Resume i)
  with assms show ?thesis
    by (auto simp: ensure_returns_trace detectAsync_resume_wellFormed split: task.splits)
qed

lemma run_trace_wellFormed:
  "\<forall>obs\<in>set (trace (run ext evs init_system)). observed_wellFormed obs"
proof (induction evs rule: rev_induct)
  case Nil
  show ?case by (simp add: run_Nil init_system_def)
next
  case (snoc ev evs)
  then show ?case unfolding run_snoc by (rule step_trace_wellFormed)
qed

lemma detect_agrees_overlapping:
  assumes "isInitialized (detector sys)" and "m \<noteq> []"
  shows "trace (step ext (CallDetect (Some m)) sys) =
           trace sys @ [DetectReturned (fst (detect (detector sys) (Some m)))] \<and>
         trace (run ext [CallDetectAsync (Some m), Resume (length (tasks sys))] sys) =
           trace sys @ [EnsureReturned, DetectAsyncReturned (fst (detect (detector sys) (Some m)))]"
  using assms
  by (simp add: detect_initialized run_def detectAsync_start_def ensureInitialized_start_def
      ensure_started_def ensure_returns_def remove_task_def)

lemma step_absent:
  assumes "errorMessage = None \<or> errorMessage = Some []"
  shows "step ext (CallDetectAsync errorMessage) sys =
           sys\<lparr>trace := trace sys @ [DetectAsyncReturned notMatched]\<rparr> \<and>
         (isInitialized (detector sys) \<longrightarrow>
            step ext (CallDetect errorMessage) sys =
              sys\<lparr>trace := trace sys @ [DetectReturned notMatched]\<rparr>)"
  using assms
  by (auto simp: detect_def detectAsync_start_def)

lemma resume_marking:
  assumes "i < length (tasks sys)" and "tasks sys ! i = EnsureMarking w"
  shows "isInitialized (detector (step ext (Resume i) sys)) \<and>
         trace (step ext (Resume i) sys) = trace sys @ [EnsureReturned]"
  using assms
  by (simp add: ensure_returns_detector ensure_returns_trace ensureInitialized_mark_def)

lemma ensure_returns_fetches: "fetches (ensure_returns w sys) = fetches sys"
  by (simp add: ensure_returns_def split: awaiter.splits)

lemma resume_polling:
  assumes "i < length (tasks sys)" and "tasks sys ! i = EnsurePolling w"
  shows "detector (step ext (Resume i) sys) = detector sys \<and>
         fetches (step ext (Resume i) sys) = fetches sys \<and>
         trace (step ext (Resume i) sys) =
           (if isLoading (detector sys) then trace sys else trace sys @ [EnsureReturned])"
  using assms
  by (simp add: ensure_returns_detector ensure_returns_fetches ensure_returns_trace
      ensureInitialized_poll_def)

text \<open>
  Only a successful reload fills the indices, and it sets the initialized flag
  in the same piece of code; so in every state that a run reaches from the
  initial one, a detector that is not initialized has the empty snapshot.
\<close>

lemma step_populated:
  assumes "isInitialized (detector sys) \<or> snapshot (detector sys) = ([], [], [], 0)"
  shows "isInitialized (detector (step ext ev sys)) \<or>
         snapshot (detector (step ext ev sys)) = ([], [], [], 0)"
proof -
  consider
      (same) "detector (step ext ev sys) = detector sys"
    | (loading) "detector (step ext ev sys) = (detector sys)\<lparr>isLoading := True\<rparr>"
    | (resumed) fetched now where
        "detector (step ext ev sys) = snd (reload_resume ext fetched now (detector sys))"
    | (marked) "detector (step ext ev sys) = ensureInitialized_mark (detector sys)"
    using step_detector [of ext ev sys] by blast
  then show ?thesis
  proof cases
    case same
    with assms show ?thesis by simp
  next
    case loading
    with assms show ?thesis by (auto simp: snapshot_def)
  next
    case resumed
    show ?thesis
    proof (cases fetched)
      case (Inl message)
      with resumed assms show ?thesis
        by (auto simp: reload_resume_rejected snapshot_def)
    next
      case (Inr rules)
      with resumed show ?thesis
        by (simp add: reload_resume_delivered)
    qed
  next
    case marked
    then show ?thesis by (simp add: ensureInitialized_mark_def)
  qed
qed

lemma run_populated:
  "isInitialized (detector (run ext evs init_system)) \<or>
   snapshot (detector (run ext evs init_system)) = ([], [], [], 0)"
proof (induction evs rule: rev_induct)
  case Nil
  show ?case by (simp add: run_Nil init_system_def new_ErrorRuleDetector_def snapshot_def)
next
  case (snoc ev evs)
  then show ?case unfolding run_snoc by (rule step_populated)
qed

lemma inFlight_append: "inFlight (ts @ [t]) = inFlight ts + (if fetching t then 1 else 0)"
  by (simp add: inFlight_def)

lemma inFlight_split:
  assumes "i < length ts"
  shows "inFlight ts =
           inFlight (take i ts) + (if fetching (ts ! i) then 1 else 0) + inFlight (drop (Suc i) ts)"
proof -
  from assms have "ts = take i ts @ ts ! i # drop (Suc i) ts"
    by (rule id_take_nth_drop)
  then have "inFlight ts = inFlight (take i ts @ ts ! i # drop (Suc i) ts)"
    by simp
  then show ?thesis by (simp add: inFlight_def)
qed

lemma inFlight_remove:
  assumes "i < length ts"
  shows "inFlight (remove_task i ts) = inFlight ts - (if fetching (ts ! i) then 1 else 0)"
  using inFlight_split [OF assms] by (simp add: remove_task_def inFlight_def)

lemma inFlight_update:
  assumes "i < length ts" and "\<not> fetching t"
  shows "inFlight (ts[i := t]) = inFlight ts - (if fetching (ts ! i) then 1 else 0)"
  using inFlight_split [OF assms(1)] assms
  by (simp add: upd_conv_take_nth_drop inFlight_def)

lemma ensure_returns_exclusive:
  "exclusive (ensure_returns w sys) = exclusive sys"
  by (simp add: ensure_returns_def exclusive_def inFlight_append split: awaiter.splits)

lemma ensure_started_exclusive:
  assumes "exclusive sys" and "ensureInitialized_start (detector sys) = (st, d')"
  shows "exclusive (ensure_started w st (sys\<lparr>detector := d'\<rparr>))"
  using assms
  by (auto simp: ensureInitialized_start_def reload_start_def ensure_started_def
      ensure_returns_def exclusive_def inFlight_append split: if_splits awaiter.splits)

lemma step_exclusive:
  assumes "exclusive sys"
  shows "exclusive (step ext ev sys)"
proof (cases ev)
  case CallReload
  with assms show ?thesis
    by (simp add: reload_start_def exclusive_def inFlight_append)
next
  case (CallDetect m)
  show ?thesis
  proof (cases "isInitialized (detector sys)")
    case True
    with CallDetect assms show ?thesis
      by (simp add: detect_def exclusive_def Let_def split: option.splits)
  next
    case False
    obtain st d' where st: "ensureInitialized_start (detector sys) = (st, d')"
      by (cases "ensureInitialized_start (detector sys)") auto
    from ensure_started_exclusive [OF assms st, of Detached] CallDetect False st
    show ?thesis by (simp add: detect_def exclusive_def Let_def)
  qed
next
  case (CallDetectAsync errorMessage)
  show ?thesis
  proof (cases "errorMessage = None \<or> errorMessage = Some []")
    case True
    with CallDetectAsync assms show ?thesis
      by (auto simp: detectAsync_start_def exclusive_def)
  next
    case False
    then obtain m where m: "errorMessage = Some m" "m \<noteq> []"
      by (cases errorMessage) auto
    obtain st d' where st: "ensureInitialized_start (detector sys) = (st, d')"
      by (cases "ensureInitialized_start (detector sys)") auto
    from ensure_started_exclusive [OF assms st, of "DetectAsyncCall m"] CallDetectAsync m st
    show ?thesis by (simp add: detectAsync_start_def)
  qed
next
  case (FetchSettles i fetched now)
  show ?thesis
  proof (cases "i < length (tasks sys) \<and> fetching (tasks sys ! i)")
    case False
    with FetchSettles assms show ?thesis
      by (auto split: task.splits)
  next
    case True
    obtain t d' where r: "reload_resume ext fetched now (detector sys) = (t, d')"
      by (cases "reload_resume ext fetched now (detector sys)") auto
    with reload_resume_idle [of ext fetched now "detector sys"] have idle: "\<not> isLoading d'"
      by simp
    from True inFlight_split [of i "tasks sys"] have "1 \<le> inFlight (tasks sys)"
      by simp
    with assms have one: "inFlight (tasks sys) = 1"
      by (simp add: exclusive_def split: if_splits)
    from True one have rem: "inFlight (remove_task i (tasks sys)) = 0"
      by (simp add: inFlight_remove)
    from True one have upd: "\<And>w. inFlight ((tasks sys)[i := EnsureMarking w]) = 0"
      by (simp add: inFlight_update)
    from True FetchSettles r idle rem upd show ?thesis
      by (auto simp: exclusive_def split: task.splits option.splits)
  qed
next
  case (Resume i)
  show ?thesis
  proof (cases "i < length (tasks sys) \<and> \<not> fetching (tasks sys ! i)")
    case False
    with Resume assms show ?thesis
      by (auto split: task.splits)
  next
    case True
    then have rem: "inFlight (remove_task i (tasks sys)) = inFlight (tasks sys)"
      by (simp add: inFlight_remove)
    with assms have removed: "exclusive (sys\<lparr>tasks := remove_task i (tasks sys)\<rparr>)"
      and marked: "exclusive (sys\<lparr>detector := ensureInitialized_mark (detector sys),
                                   tasks := remove_task i (tasks sys)\<rparr>)"
      and matched: "\<And>tr. exclusive (sys\<lparr>tasks := remove_task i (tasks sys), trace := tr\<rparr>)"
      by (simp_all add: exclusive_def ensureInitialized_mark_def)
    with True Resume assms show ?thesis
      by (simp add: ensure_returns_exclusive split: task.splits)
  qed
qed

lemma run_exclusive: "exclusive (run ext evs init_system)"
proof (induction evs rule: rev_induct)
  case Nil
  show ?case
    by (simp add: run_Nil init_system_def new_ErrorRuleDetector_def exclusive_def inFlight_def)
next
  case (snoc ev evs)
  then show ?case unfolding run_snoc by (rule step_exclusive)
qed

lemma reload_while_loading:
  "isLoading (detector sys) \<Longrightarrow>
   step ext CallReload sys = sys\<lparr>trace := trace sys @ [ReloadReturned]\<rparr>"
  by (simp add: reload_start_def)

lemma two_reloads:
  assumes "\<not> isLoading (detector sys)"
  shows "run ext [CallReload, CallReload, FetchSettles (length (tasks sys)) fetched now] sys =
         sys\<lparr>detector := snd (reload ext fetched now (detector sys)),
             fetches := Suc (fetches sys),
             trace := trace sys @ [ReloadReturned, ReloadReturned]\<rparr>"
proof -
  obtain t d' where r:
    "reload_resume ext fetched now ((detector sys)\<lparr>isLoading := True\<rparr>) = (t, d')"
    by (cases "reload_resume ext fetched now ((detector sys)\<lparr>isLoading := True\<rparr>)") auto
  with reload_resume_fulfils [of ext fetched now "(detector sys)\<lparr>isLoading := True\<rparr>"]
  have t: "t = None" by simp
  from assms r t show ?thesis
    by (simp add: run_def reload_start_def reload_def remove_task_def)
qed

section \<open>C1: tier priority\<close>

text \<open>
  C1. For a message that is not empty, in every detector reached by a run from
  the initial system: when some containment entry and some regex entry match
  the message, \<^verbatim>\<open>detect\<close> and \<^verbatim>\<open>detectAsync\<close> both return a match of type
  \<^verbatim>\<open>contains\<close>. For every detector whatsoever: when some containment entry
  matches, the matching code returns a \<^verbatim>\<open>contains\<close> match, and the same one
  whatever the exact and regex indices hold (the later tiers are not
  consulted); when no containment entry matches and the exact index has the
  trimmed lower-case message as a key, it returns that entry as an \<^verbatim>\<open>exact\<close>
  match, whatever the regex index holds. On an initialized detector
  \<^verbatim>\<open>detect\<close> returns what the matching code of \<^verbatim>\<open>detectAsync\<close> returns.
\<close>

theorem tier_priority:
  assumes "m \<noteq> []"
  shows
  "(d = detector (run ext evs init_system) \<and>
    (\<exists>p\<in>set (containsPatterns d). includes_str (toLowerCase m) (cp_text p)) \<and>
    (\<exists>r\<in>set (regexPatterns d). test (rx_pattern r) m)
    \<longrightarrow> (\<exists>c t. fst (detect d (Some m)) =
                 \<lparr>matched = True, category = Some c, pattern = Some t,
                  matchType = Some ''contains''\<rparr> \<and>
               detectAsync ext fetched now d (Some m) =
                 Some (Inr \<lparr>matched = True, category = Some c, pattern = Some t,
                            matchType = Some ''contains''\<rparr>, d))) \<and>
   ((\<exists>p\<in>set (containsPatterns d'). includes_str (toLowerCase m) (cp_text p))
    \<longrightarrow> (\<exists>c t. detectAsync_resume d' m =
                 \<lparr>matched = True, category = Some c, pattern = Some t,
                  matchType = Some ''contains''\<rparr> \<and>
               detectAsync_resume (d'\<lparr>exactPatterns := es, regexPatterns := rs\<rparr>) m =
                 detectAsync_resume d' m \<and>
               (isInitialized d' \<longrightarrow> fst (detect d' (Some m)) = detectAsync_resume d' m))) \<and>
   ((\<forall>p\<in>set (containsPatterns d'). \<not> includes_str (toLowerCase m) (cp_text p)) \<and>
    map_of (exactPatterns d') (trim (toLowerCase m)) = Some e
    \<longrightarrow> detectAsync_resume d' m =
          \<lparr>matched = True, category = Some (ep_category e), pattern = Some (ep_text e),
           matchType = Some ''exact''\<rparr> \<and>
        (isInitialized d' \<longrightarrow> fst (detect d' (Some m)) = detectAsync_resume d' m))"
proof (intro conjI impI)
  assume a: "d = detector (run ext evs init_system) \<and>
    (\<exists>p\<in>set (containsPatterns d). includes_str (toLowerCase m) (cp_text p)) \<and>
    (\<exists>r\<in>set (regexPatterns d). test (rx_pattern r) m)"
  then have "containsPatterns d \<noteq> []" by auto
  with a run_populated [of ext evs] have init: "isInitialized d"
    by (auto simp: snapshot_def)
  from a contains_tier [of d m] obtain c t where
    "detectAsync_resume d m =
       \<lparr>matched = True, category = Some c, pattern = Some t, matchType = Some ''contains''\<rparr>"
    by blast
  with init assms show "\<exists>c t. fst (detect d (Some m)) =
                 \<lparr>matched = True, category = Some c, pattern = Some t,
                  matchType = Some ''contains''\<rparr> \<and>
               detectAsync ext fetched now d (Some m) =
                 Some (Inr \<lparr>matched = True, category = Some c, pattern = Some t,
                            matchType = Some ''contains''\<rparr>, d)"
    by (simp add: detect_initialized detectAsync_initialized)
next
  assume "\<exists>p\<in>set (containsPatterns d'). includes_str (toLowerCase m) (cp_text p)"
  with contains_tier [of d' m] contains_tier_alone [where d = d' and m = m and es = es and rs = rs] assms
  show "\<exists>c t. detectAsync_resume d' m =
                 \<lparr>matched = True, category = Some c, pattern = Some t,
                  matchType = Some ''contains''\<rparr> \<and>
               detectAsync_resume (d'\<lparr>exactPatterns := es, regexPatterns := rs\<rparr>) m =
                 detectAsync_resume d' m \<and>
               (isInitialized d' \<longrightarrow> fst (detect d' (Some m)) = detectAsync_resume d' m)"
    by (auto simp: detect_initialized)
next
  assume "(\<forall>p\<in>set (containsPatterns d'). \<not> includes_str (toLowerCase m) (cp_text p)) \<and>
    map_of (exactPatterns d') (trim (toLowerCase m)) = Some e"
  then show "detectAsync_resume d' m =
          \<lparr>matched = True, category = Some (ep_category e), pattern = Some (ep_text e),
           matchType = Some ''exact''\<rparr>"
    by (simp add: exact_tier)
next
  assume "isInitialized d'"
  with assms show "fst (detect d' (Some m)) = detectAsync_resume d' m"
    by (simp add: detect_initialized)
qed

theorem tier_priority_witness:
  "''Error: timeout, the job FAILED'' \<noteq> [] \<and>
   (\<exists>p\<in>set (containsPatterns (detector (run example_externals
        [CallReload, FetchSettles 0 (Inr example_rules) 5] init_system))).
      includes_str (toLowerCase ''Error: timeout, the job FAILED'') (cp_text p)) \<and>
   (\<exists>r\<in>set (regexPatterns (detector (run example_externals
        [CallReload, FetchSettles 0 (Inr example_rules) 5] init_system))).
      test (rx_pattern r) ''Error: timeout, the job FAILED'') \<and>
   fst (detect (detector (run example_externals
        [CallReload, FetchSettles 0 (Inr example_rules) 5] init_system))
      (Some ''Error: timeout, the job FAILED'')) =
     \<lparr>matched = True, category = Some ''generic'', pattern = Some ''error'',
      matchType = Some ''contains''\<rparr> \<and>
   detectAsync example_externals (Inl []) 0 (detector (run example_externals
        [CallReload, FetchSettles 0 (Inr example_rules) 5] init_system))
      (Some ''Error: timeout, the job FAILED'') =
     Some (Inr \<lparr>matched = True, category = Some ''generic'', pattern = Some ''error'',
                matchType = Some ''contains''\<rparr>,
           detector (run example_externals
             [CallReload, FetchSettles 0 (Inr example_rules) 5] init_system)) \<and>
   detectAsync_resume (example_detector\<lparr>exactPatterns := [], regexPatterns := []\<rparr>)
       ''Error: timeout, the job FAILED'' =
     detectAsync_resume example_detector ''Error: timeout, the job FAILED'' \<and>
   ''  Out Of Memory  '' \<noteq> [] \<and>
   map_of (exactPatterns example_detector) (trim (toLowerCase ''  Out Of Memory  '')) =
     Some \<lparr>ep_text = ''out of memory'', ep_category = ''oom'', ep_description = Some ''memory''\<rparr> \<and>
   detectAsync_resume example_detector ''  Out Of Memory  '' =
     \<lparr>matched = True, category = Some ''oom'', pattern = Some ''out of memory'',
      matchType = Some ''exact''\<rparr>"
proof -
  let ?d = "detector (run example_externals
        [CallReload, FetchSettles 0 (Inr example_rules) 5] init_system)"
  let ?m = "''Error: timeout, the job FAILED''"
  let ?n = "''  Out Of Memory  ''"
  let ?e = "\<lparr>ep_text = ''out of memory'', ep_category = ''oom'', ep_description = Some ''memory''\<rparr>"
  have nonempty: "?m \<noteq> []" "?n \<noteq> []"
    by simp_all
  have c: "\<exists>p\<in>set (containsPatterns ?d). includes_str (toLowerCase ?m) (cp_text p)"
    by code_simp
  have r: "\<exists>r\<in>set (regexPatterns ?d). test (rx_pattern r) ?m"
    by code_simp
  have res: "fst (detect ?d (Some ?m)) =
     \<lparr>matched = True, category = Some ''generic'', pattern = Some ''error'',
      matchType = Some ''contains''\<rparr>"
    by code_simp
  have c': "\<exists>p\<in>set (containsPatterns example_detector).
      includes_str (toLowerCase ?m) (cp_text p)"
    by code_simp
  have none: "\<forall>p\<in>set (containsPatterns example_detector).
      \<not> includes_str (toLowerCase ?n) (cp_text p)"
    by code_simp
  have key: "map_of (exactPatterns example_detector) (trim (toLowerCase ?n)) = Some ?e"
    by code_simp
  note first = tier_priority [where m = ?m and d = ?d and ext = example_externals
      and evs = "[CallReload, FetchSettles 0 (Inr example_rules) 5]"
      and fetched = "Inl []" and now = 0 and d' = example_detector
      and es = "[]" and rs = "[]", OF nonempty(1)]
  note second = tier_priority [where m = ?n and d' = example_detector and e = ?e,
      OF nonempty(2)]
  from first c r obtain c' t' where
    "fst (detect ?d (Some ?m)) =
       \<lparr>matched = True, category = Some c', pattern = Some t', matchType = Some ''contains''\<rparr>"
    "detectAsync example_externals (Inl []) 0 ?d (Some ?m) =
       Some (Inr \<lparr>matched = True, category = Some c', pattern = Some t',
                  matchType = Some ''contains''\<rparr>, ?d)"
    by blast
  with res have async: "detectAsync example_externals (Inl []) 0 ?d (Some ?m) =
     Some (Inr \<lparr>matched = True, category = Some ''generic'', pattern = Some ''error'',
                matchType = Some ''contains''\<rparr>, ?d)"
    by simp
  from first c' have alone:
    "detectAsync_resume (example_detector\<lparr>exactPatterns := [], regexPatterns := []\<rparr>) ?m =
     detectAsync_resume example_detector ?m"
    by blast
  from second none key have exact: "detectAsync_resume example_detector ?n =
     \<lparr>matched = True, category = Some ''oom'', pattern = Some ''out of memory'',
      matchType = Some ''exact''\<rparr>"
    by simp
  from nonempty c r res async alone key exact show ?thesis by blast
qed

section \<open>C2: a reload whose query fails\<close>

text \<open>
  C2. When the query of a \<^verbatim>\<open>reload\<close> call fails, the call leaves the three
  indices and the time of the last reload as they were, so that \<^verbatim>\<open>getStats\<close>
  reports what it reported before, and no exception reaches the caller. On a
  detector with no load in progress the call does query the store, and the
  detector after the call is the detector before it. The code after the
  suspension point alone changes nothing but the loading flag, whatever state
  it is resumed in. In a run of overlapping calls, no event other than a
  delivery of rules changes the indices or the time of the last reload.
\<close>

theorem failed_reload_keeps_snapshot:
  "(\<not> isLoading d \<longrightarrow>
      reload_start d = (True, d\<lparr>isLoading := True\<rparr>) \<and>
      reload ext (Inl message) now d = (None, d) \<and>
      getStats (snd (reload ext (Inl message) now d)) = getStats d) \<and>
   reload_resume ext (Inl message) now d = (None, d\<lparr>isLoading := False\<rparr>) \<and>
   ((\<forall>ev\<in>set evs. \<not> delivers_rules ev) \<longrightarrow>
      snapshot (detector (run ext evs sys)) = snapshot (detector sys))"
  by (simp add: reload_rejected reload_resume_rejected reload_start_def run_snapshot)

theorem failed_reload_keeps_snapshot_witness:
  "\<not> isLoading example_detector \<and>
   reload example_externals (Inl ''connection refused'') 9 example_detector = (None, example_detector) \<and>
   getStats (snd (reload example_externals (Inl ''connection refused'') 9 example_detector))
     = getStats example_detector \<and>
   getStats example_detector =
     \<lparr>regexCount = 2, containsCount = 3, exactCount = 2, totalCount = 7,
      stats_lastReloadTime = 5, stats_isLoading = False\<rparr> \<and>
   snapshot (detector (run example_externals
       [CallReload, CallReload, FetchSettles 0 (Inl ''connection refused'') 9]
       \<lparr>detector = example_detector, tasks = [], fetches = 1, trace = []\<rparr>))
     = snapshot example_detector"
proof -
  have idle: "\<not> isLoading example_detector"
    by code_simp
  have stats: "getStats example_detector =
     \<lparr>regexCount = 2, containsCount = 3, exactCount = 2, totalCount = 7,
      stats_lastReloadTime = 5, stats_isLoading = False\<rparr>"
    by code_simp
  have evs: "\<forall>ev\<in>set [CallReload, CallReload, FetchSettles 0 (Inl ''connection refused'') 9].
      \<not> delivers_rules ev"
    by simp
  show ?thesis
    using idle stats evs
      failed_reload_keeps_snapshot [of example_detector example_externals
        "''connection refused''" 9
        "[CallReload, CallReload, FetchSettles 0 (Inl ''connection refused'') 9]"
        "\<lparr>detector = example_detector, tasks = [], fetches = 1, trace = []\<rparr>"]
    by simp
qed

section \<open>C3: one reload at a time\<close>

text \<open>
  C3. A \<^verbatim>\<open>reload\<close> call that arrives while the loading flag is set returns at
  once: it sends no query and changes neither the detector nor the suspended
  calls. \<^verbatim>\<open>ensureInitialized\<close> does not start a reload while the flag is set
  either. In every state that a run of overlapping calls reaches from the
  initial system, at most one call waits for the rule store, and one does
  exactly when the loading flag is set. Two \<^verbatim>\<open>reload\<close> calls in a row on a
  detector that is not loading, followed by the store's answer, send one query
  and leave the detector as a single \<^verbatim>\<open>reload\<close> call with that answer does.
\<close>

theorem one_reload_in_flight:
  "(isLoading (detector sys) \<longrightarrow>
      step ext CallReload sys = sys\<lparr>trace := trace sys @ [ReloadReturned]\<rparr>) \<and>
   (isLoading d \<longrightarrow>
      ensureInitialized_start d = (if isInitialized d then EnsureDone else EnsureWaits, d)) \<and>
   inFlight (tasks (run ext evs init_system)) \<le> 1 \<and>
   (inFlight (tasks (run ext evs init_system)) = 1
      \<longleftrightarrow> isLoading (detector (run ext evs init_system))) \<and>
   (\<not> isLoading (detector sys) \<longrightarrow>
      run ext [CallReload, CallReload, FetchSettles (length (tasks sys)) fetched now] sys =
        sys\<lparr>detector := snd (reload ext fetched now (detector sys)),
            fetches := Suc (fetches sys),
            trace := trace sys @ [ReloadReturned, ReloadReturned]\<rparr>)"
  using run_exclusive [of ext evs] two_reloads [of sys ext fetched now]
    reload_while_loading [of sys ext]
  by (simp add: ensureInitialized_start_def exclusive_def del: step.simps)

theorem one_reload_in_flight_witness:
  "isLoading (detector (step example_externals CallReload init_system)) \<and>
   step example_externals CallReload (step example_externals CallReload init_system) =
     (step example_externals CallReload init_system)
       \<lparr>trace := trace (step example_externals CallReload init_system) @ [ReloadReturned]\<rparr> \<and>
   fetches (step example_externals CallReload (step example_externals CallReload init_system)) = 1 \<and>
   ensureInitialized_start (detector (step example_externals CallReload init_system)) =
     (EnsureWaits, detector (step example_externals CallReload init_system)) \<and>
   inFlight (tasks (run example_externals
       [CallReload, CallDetectAsync (Some ''x''), CallDetect (Some ''y''), CallReload]
       init_system)) = 1 \<and>
   tasks (run example_externals
       [CallReload, CallDetectAsync (Some ''x''), CallDetect (Some ''y''), CallReload]
       init_system) =
     [ReloadFetching, EnsurePolling (DetectAsyncCall ''x''), EnsurePolling Detached] \<and>
   \<not> isLoading (detector init_system) \<and>
   run example_externals [CallReload, CallReload, FetchSettles 0 (Inr example_rules) 5]
       init_system =
     init_system\<lparr>detector := example_detector, fetches := 1,
                 trace := [ReloadReturned, ReloadReturned]\<rparr>"
proof -
  have loading: "isLoading (detector (step example_externals CallReload init_system))"
    by code_simp
  have cold: "\<not> isInitialized (detector (step example_externals CallReload init_system))"
    by code_simp
  have idle: "\<not> isLoading (detector init_system)"
    by code_simp
  have f: "fetches (step example_externals CallReload
             (step example_externals CallReload init_system)) = 1"
    by code_simp
  have ts: "tasks (run example_externals
       [CallReload, CallDetectAsync (Some ''x''), CallDetect (Some ''y''), CallReload]
       init_system) =
     [ReloadFetching, EnsurePolling (DetectAsyncCall ''x''), EnsurePolling Detached]"
    by code_simp
  have still: "isLoading (detector (run example_externals
       [CallReload, CallDetectAsync (Some ''x''), CallDetect (Some ''y''), CallReload]
       init_system))"
    by code_simp
  have d: "snd (reload example_externals (Inr example_rules) 5 (detector init_system)) =
      example_detector"
    by (simp add: example_detector_def init_system_def)
  have "length (tasks init_system) = 0" "fetches init_system = 0" "trace init_system = []"
    by (simp_all add: init_system_def)
  with loading cold idle f ts still d
    one_reload_in_flight [of "step example_externals CallReload init_system" example_externals
      "detector (step example_externals CallReload init_system)"
      "[CallReload, CallDetectAsync (Some ''x''), CallDetect (Some ''y''), CallReload]"
      "Inr example_rules" 5]
    one_reload_in_flight [of init_system example_externals
      "detector init_system"
      "[CallReload, CallDetectAsync (Some ''x''), CallDetect (Some ''y''), CallReload]"
      "Inr example_rules" 5]
  show ?thesis
    by (simp del: step.simps)
qed

section \<open>C4: the empty message\<close>

text \<open>
  C4, as stated, fails for the synchronous \<^verbatim>\<open>detect\<close>: on the initial
  detector, \<^verbatim>\<open>detect\<close> with the empty message (or with no message) tests the
  initialized flag before it looks at the message, starts
  \<^verbatim>\<open>ensureInitialized\<close>, and the rule store is queried.
\<close>

theorem detect_empty_counterexample:
  "\<not> isInitialized (detector init_system) \<and>
   fetches init_system = 0 \<and>
   fetches (step example_externals (CallDetect (Some [])) init_system) = 1 \<and>
   tasks (step example_externals (CallDetect (Some [])) init_system) = [EnsureFetching Detached] \<and>
   isLoading (detector (step example_externals (CallDetect (Some [])) init_system)) \<and>
   fetches (step example_externals (CallDetect None) init_system) = 1 \<and>
   fst (snd (detect new_ErrorRuleDetector (Some []))) = Some EnsureReloads"
  by code_simp

text \<open>
  C4, amended. For the empty message and for no message: \<^verbatim>\<open>detectAsync\<close>
  returns \<^verbatim>\<open>{matched: false}\<close> in every state, with no query and no change at
  all; \<^verbatim>\<open>detect\<close> returns \<^verbatim>\<open>{matched: false}\<close> in every state, whatever the
  indices hold; on an initialized detector it starts nothing and changes
  nothing; on a detector that is not initialized it first starts
  \<^verbatim>\<open>ensureInitialized\<close>, which waits when a load is in progress and otherwise
  sets the loading flag and queries the store.
\<close>

theorem empty_message_short_circuit:
  assumes "errorMessage = None \<or> errorMessage = Some []"
  shows
  "detectAsync_start d errorMessage = (Inl notMatched, d) \<and>
   detectAsync ext fetched now d errorMessage = Some (Inr notMatched, d) \<and>
   step ext (CallDetectAsync errorMessage) sys =
     sys\<lparr>trace := trace sys @ [DetectAsyncReturned notMatched]\<rparr> \<and>
   fst (detect d errorMessage) = notMatched \<and>
   (isInitialized d \<longrightarrow> detect d errorMessage = (notMatched, None, d)) \<and>
   (isInitialized (detector sys) \<longrightarrow>
      step ext (CallDetect errorMessage) sys =
        sys\<lparr>trace := trace sys @ [DetectReturned notMatched]\<rparr>) \<and>
   (\<not> isInitialized d \<and> isLoading d \<longrightarrow>
      detect d errorMessage = (notMatched, Some EnsureWaits, d)) \<and>
   (\<not> isInitialized d \<and> \<not> isLoading d \<longrightarrow>
      detect d errorMessage = (notMatched, Some EnsureReloads, d\<lparr>isLoading := True\<rparr>))"
  using detectAsync_absent [OF assms, of d ext fetched now] detect_absent_any [OF assms, of d]
    step_absent [OF assms, of ext sys]
  by (simp del: step.simps)

theorem empty_message_short_circuit_witness:
  "detectAsync example_externals (Inl []) 0 new_ErrorRuleDetector (Some []) =
     Some (Inr notMatched, new_ErrorRuleDetector) \<and>
   step example_externals (CallDetectAsync (Some [])) init_system =
     init_system\<lparr>trace := trace init_system @ [DetectAsyncReturned notMatched]\<rparr> \<and>
   fetches (step example_externals (CallDetectAsync (Some [])) init_system) = 0 \<and>
   isInitialized example_detector \<and>
   detect example_detector (Some []) = (notMatched, None, example_detector) \<and>
   detect example_detector None = (notMatched, None, example_detector) \<and>
   \<not> isInitialized new_ErrorRuleDetector \<and> \<not> isLoading new_ErrorRuleDetector \<and>
   detect new_ErrorRuleDetector (Some []) =
     (notMatched, Some EnsureReloads, new_ErrorRuleDetector\<lparr>isLoading := True\<rparr>) \<and>
   \<not> isInitialized (new_ErrorRuleDetector\<lparr>isLoading := True\<rparr>) \<and>
   isLoading (new_ErrorRuleDetector\<lparr>isLoading := True\<rparr>) \<and>
   detect (new_ErrorRuleDetector\<lparr>isLoading := True\<rparr>) (Some []) =
     (notMatched, Some EnsureWaits, new_ErrorRuleDetector\<lparr>isLoading := True\<rparr>)"
proof -
  have e: "Some [] = None \<or> Some [] = Some ([] :: string)"
    by simp
  have a: "None = None \<or> None = Some ([] :: string)"
    by simp
  have ready: "isInitialized example_detector"
    by code_simp
  have fresh: "\<not> isInitialized new_ErrorRuleDetector" "\<not> isLoading new_ErrorRuleDetector"
    by code_simp+
  have busy: "\<not> isInitialized (new_ErrorRuleDetector\<lparr>isLoading := True\<rparr>)"
      "isLoading (new_ErrorRuleDetector\<lparr>isLoading := True\<rparr>)"
    by code_simp+
  have f: "fetches (step example_externals (CallDetectAsync (Some [])) init_system) = 0"
    by code_simp
  from ready fresh busy f
    empty_message_short_circuit [OF e, of new_ErrorRuleDetector example_externals "Inl []" 0
      init_system]
    empty_message_short_circuit [OF e, of example_detector example_externals "Inl []" 0
      init_system]
    empty_message_short_circuit [OF a, of example_detector example_externals "Inl []" 0
      init_system]
    empty_message_short_circuit [OF e, of "new_ErrorRuleDetector\<lparr>isLoading := True\<rparr>"
      example_externals "Inl []" 0 init_system]
  show ?thesis
    by (simp del: step.simps)
qed

section \<open>C5: regex rules that are refused\<close>

text \<open>
  C5. A regex rule that the safety screen rejects leaves the detector as it is
  and adds one to the count of skipped rules; a regex rule that does not
  compile leaves the detector and both counts as they are. Loading a list of
  rules gives the same indices as loading the list without those rules, and
  the count of skipped rules grows by the number of rejected ones. A reload
  whose query delivers rules always completes: no exception, the initialized
  flag set, the loading flag reset. After it the regex index holds the entries
  of the rules that pass the screen and compile, in their order, and each entry
  comes from such a rule. Hence a regex match that \<^verbatim>\<open>detectAsync\<close> or
  \<^verbatim>\<open>detect\<close> returns after the reload carries the category and the compiled
  pattern of a rule that was neither rejected nor failed to compile.
\<close>

theorem unsafe_regex_skipped:
  "(rejected ext rule \<longrightarrow> loadRule ext rule (d, v, k) = (d, v, Suc k)) \<and>
   (uncompilable ext rule \<longrightarrow> loadRule ext rule (d, v, k) = (d, v, k)) \<and>
   fst (loadRules ext rules (d, v, k)) =
     fst (loadRules ext (filter (\<lambda>r. \<not> rejected ext r \<and> \<not> uncompilable ext r) rules) (d, v, k)) \<and>
   snd (snd (loadRules ext rules (d, v, k))) = k + length (filter (rejected ext) rules) \<and>
   fst (reload_resume ext (Inr rules) now d) = None \<and>
   isInitialized (snd (reload_resume ext (Inr rules) now d)) \<and>
   \<not> isLoading (snd (reload_resume ext (Inr rules) now d)) \<and>
   regexPatterns (snd (reload_resume ext (Inr rules) now d)) =
     List.map_filter (regexEntry ext) rules \<and>
   (\<forall>x\<in>set (regexPatterns (snd (reload_resume ext (Inr rules) now d))).
      \<exists>r\<in>set rules. \<not> rejected ext r \<and> \<not> uncompilable ext r \<and>
        rule_matchType r = ''regex'' \<and> safeRegex ext (rule_pattern r) = Some True \<and>
        newRegExp ext (rule_pattern r) = Some (rx_pattern x) \<and>
        rx_category x = rule_category r) \<and>
   (matchType (detectAsync_resume (snd (reload_resume ext (Inr rules) now d)) m) = Some ''regex''
    \<longrightarrow> (\<exists>r\<in>set rules. \<exists>re. \<not> rejected ext r \<and> \<not> uncompilable ext r \<and>
           newRegExp ext (rule_pattern r) = Some re \<and> test re m \<and>
           detectAsync_resume (snd (reload_resume ext (Inr rules) now d)) m =
             \<lparr>matched = True, category = Some (rule_category r), pattern = Some (source re),
              matchType = Some ''regex''\<rparr>)) \<and>
   (matchType (fst (detect (snd (reload_resume ext (Inr rules) now d)) (Some m))) = Some ''regex''
    \<longrightarrow> fst (detect (snd (reload_resume ext (Inr rules) now d)) (Some m)) =
          detectAsync_resume (snd (reload_resume ext (Inr rules) now d)) m)"
proof -
  have origin: "\<forall>x\<in>set (regexPatterns (snd (reload_resume ext (Inr rules) now d))).
      \<exists>r\<in>set rules. \<not> rejected ext r \<and> \<not> uncompilable ext r \<and>
        rule_matchType r = ''regex'' \<and> safeRegex ext (rule_pattern r) = Some True \<and>
        newRegExp ext (rule_pattern r) = Some (rx_pattern x) \<and>
        rx_category x = rule_category r"
    using regexEntry_origin [of _ ext rules] by (simp add: reload_resume_regexPatterns)
  have sync: "matchType (fst (detect (snd (reload_resume ext (Inr rules) now d)) (Some m))) =
        Some ''regex''
    \<longrightarrow> fst (detect (snd (reload_resume ext (Inr rules) now d)) (Some m)) =
          detectAsync_resume (snd (reload_resume ext (Inr rules) now d)) m"
    by (simp add: detect_after_reload)
  show ?thesis
    using origin sync regex_result_origin [of ext rules now d m]
      loadRules_remaining [of ext rules d v k] loadRules_skipped [of ext rules d v k]
      loadRule_rejected [of ext rule d v k] loadRule_uncompilable [of ext rule d v k]
      reload_resume_fulfils [of ext "Inr rules" now d]
      reload_resume_idle [of ext "Inr rules" now d]
      reload_resume_delivered [of ext rules now d]
      reload_resume_regexPatterns [of ext rules now d]
    by blast
qed

theorem unsafe_regex_skipped_witness:
  "rejected example_externals (example_rules ! 4) \<and>
   rule_pattern (example_rules ! 4) = ''(a+)+$'' \<and>
   loadRule example_externals (example_rules ! 4) (new_ErrorRuleDetector, 0, 0) =
     (new_ErrorRuleDetector, 0, 1) \<and>
   uncompilable example_externals (example_rules ! 5) \<and>
   loadRule example_externals (example_rules ! 5) (new_ErrorRuleDetector, 0, 0) =
     (new_ErrorRuleDetector, 0, 0) \<and>
   snd (snd (loadRules example_externals example_rules (new_ErrorRuleDetector, 0, 0))) = 1 \<and>
   fst (reload_resume example_externals (Inr example_rules) 5 new_ErrorRuleDetector) = None \<and>
   map (\<lambda>x. (source (rx_pattern x), rx_category x))
     (regexPatterns (snd (reload_resume example_externals (Inr example_rules) 5
        new_ErrorRuleDetector))) = [(''refused'', ''network''), (''fail'', ''failure'')] \<and>
   matchType (detectAsync_resume (snd (reload_resume example_externals (Inr example_rules) 5
        new_ErrorRuleDetector)) ''it FAILED'') = Some ''regex'' \<and>
   (\<exists>r\<in>set example_rules. \<exists>re.
      \<not> rejected example_externals r \<and> \<not> uncompilable example_externals r \<and>
      newRegExp example_externals (rule_pattern r) = Some re \<and> test re ''it FAILED'' \<and>
      detectAsync_resume (snd (reload_resume example_externals (Inr example_rules) 5
        new_ErrorRuleDetector)) ''it FAILED'' =
        \<lparr>matched = True, category = Some (rule_category r), pattern = Some (source re),
         matchType = Some ''regex''\<rparr>) \<and>
   matchType (fst (detect (snd (reload_resume example_externals (Inr example_rules) 5
        new_ErrorRuleDetector)) (Some ''it FAILED''))) = Some ''regex'' \<and>
   fst (detect (snd (reload_resume example_externals (Inr example_rules) 5
        new_ErrorRuleDetector)) (Some ''it FAILED'')) =
     detectAsync_resume (snd (reload_resume example_externals (Inr example_rules) 5
        new_ErrorRuleDetector)) ''it FAILED'' \<and>
   detectAsync_resume (snd (reload_resume example_externals (Inr example_rules) 5
        new_ErrorRuleDetector)) ''aaaaaaaaaaaaaaaaaaaaaaaaaaaaaa!'' = notMatched"
proof -
  let ?d = "snd (reload_resume example_externals (Inr example_rules) 5 new_ErrorRuleDetector)"
  have rej: "rejected example_externals (example_rules ! 4)"
    unfolding rejected_def by code_simp
  have pat: "rule_pattern (example_rules ! 4) = ''(a+)+$''"
    by code_simp
  have unc: "uncompilable example_externals (example_rules ! 5)"
    unfolding uncompilable_def by code_simp
  have cnt: "length (filter (rejected example_externals) example_rules) = 1"
    unfolding rejected_def by code_simp
  have ix: "map (\<lambda>x. (source (rx_pattern x), rx_category x)) (regexPatterns ?d) =
      [(''refused'', ''network''), (''fail'', ''failure'')]"
    by code_simp
  have mt: "matchType (detectAsync_resume ?d ''it FAILED'') = Some ''regex''"
    by code_simp
  have ms: "matchType (fst (detect ?d (Some ''it FAILED''))) = Some ''regex''"
    by code_simp
  have no: "detectAsync_resume ?d ''aaaaaaaaaaaaaaaaaaaaaaaaaaaaaa!'' = notMatched"
    by code_simp
  from rej pat cnt ix mt ms no
    unsafe_regex_skipped [of example_externals "example_rules ! 4" new_ErrorRuleDetector 0 0
      example_rules 5 "''it FAILED''"]
    unsafe_regex_skipped [of example_externals "example_rules ! 5" new_ErrorRuleDetector 0 0
      example_rules 5 "''it FAILED''"]
    unc
  show ?thesis
    by simp
qed

section \<open>C6: the exact tier\<close>

text \<open>
  C6. The loader stores an exact rule under its pattern in lower case, not
  trimmed. When no containment entry matches, the result is an exact match
  precisely when the exact index has the key: the message in lower case,
  trimmed. A pattern that begins or ends with white space is in lower case
  never equal to such a key; and after a reload an exact match carries the
  trimmed lower-case message as its pattern, which is the text of no rule whose
  pattern begins or ends with white space. With the one exact rule
  \<^verbatim>\<open>out of memory\<close> loaded, \<^verbatim>\<open>detect\<close> matches the message
  \<^verbatim>\<open>"  Out Of Memory  "\<close> and does not match \<^verbatim>\<open>"out of memory error"\<close>.
\<close>

theorem exact_tier_semantics:
  "(rule_matchType rule = ''exact'' \<longrightarrow>
      map_of (exactPatterns (fst (loadRule ext rule (d, v, k)))) =
        (map_of (exactPatterns d))
          (toLowerCase (rule_pattern rule) \<mapsto>
             \<lparr>ep_text = toLowerCase (rule_pattern rule), ep_category = rule_category rule,
              ep_description = rule_description rule\<rparr>)) \<and>
   ((\<forall>p\<in>set (containsPatterns d). \<not> includes_str (toLowerCase m) (cp_text p)) \<longrightarrow>
      (matchType (detectAsync_resume d m) = Some ''exact'') =
      (map_of (exactPatterns d) (trim (toLowerCase m)) \<noteq> None)) \<and>
   (padded p \<longrightarrow> trim (toLowerCase m) \<noteq> toLowerCase p) \<and>
   (matchType (detectAsync_resume (snd (reload_resume ext (Inr rules) now d)) m) = Some ''exact''
    \<longrightarrow> pattern (detectAsync_resume (snd (reload_resume ext (Inr rules) now d)) m) =
          Some (trim (toLowerCase m)) \<and>
        (\<forall>r\<in>set rules. padded (rule_pattern r) \<longrightarrow>
           pattern (detectAsync_resume (snd (reload_resume ext (Inr rules) now d)) m) \<noteq>
             Some (toLowerCase (rule_pattern r)))) \<and>
   fst (detect (snd (reload ext
          (Inr [\<lparr>rule_pattern = ''out of memory'', rule_category = c,
                 rule_matchType = ''exact'', rule_description = None\<rparr>]) now
          new_ErrorRuleDetector)) (Some ''  Out Of Memory  '')) =
     \<lparr>matched = True, category = Some c, pattern = Some ''out of memory'',
      matchType = Some ''exact''\<rparr> \<and>
   fst (detect (snd (reload ext
          (Inr [\<lparr>rule_pattern = ''out of memory'', rule_category = c,
                 rule_matchType = ''exact'', rule_description = None\<rparr>]) now
          new_ErrorRuleDetector)) (Some ''out of memory error'')) = notMatched"
proof -
  have yes: "fst (detect (snd (reload ext
          (Inr [\<lparr>rule_pattern = ''out of memory'', rule_category = c,
                 rule_matchType = ''exact'', rule_description = None\<rparr>]) now
          new_ErrorRuleDetector)) (Some ''  Out Of Memory  '')) =
     \<lparr>matched = True, category = Some c, pattern = Some ''out of memory'',
      matchType = Some ''exact''\<rparr>"
    by code_simp
  have no: "fst (detect (snd (reload ext
          (Inr [\<lparr>rule_pattern = ''out of memory'', rule_category = c,
                 rule_matchType = ''exact'', rule_description = None\<rparr>]) now
          new_ErrorRuleDetector)) (Some ''out of memory error'')) = notMatched"
    by code_simp
  have store: "rule_matchType rule = ''exact'' \<longrightarrow>
      map_of (exactPatterns (fst (loadRule ext rule (d, v, k)))) =
        (map_of (exactPatterns d))
          (toLowerCase (rule_pattern rule) \<mapsto>
             \<lparr>ep_text = toLowerCase (rule_pattern rule), ep_category = rule_category rule,
              ep_description = rule_description rule\<rparr>)"
    by (simp add: loadRule_exactPatterns)
  show ?thesis
    using store yes no exact_tier_iff [of d m] padded_unreachable [of p m]
      exact_after_reload [of ext rules now d m]
    by blast
qed

theorem exact_tier_semantics_witness:
  "rule_matchType (example_rules ! 8) = ''exact'' \<and>
   rule_pattern (example_rules ! 8) = '' padded '' \<and>
   padded '' padded '' \<and>
   map_of (exactPatterns (fst (loadRule example_externals (example_rules ! 8)
       (new_ErrorRuleDetector, 0, 0)))) '' padded '' =
     Some \<lparr>ep_text = '' padded '', ep_category = ''unreachable'', ep_description = None\<rparr> \<and>
   trim (toLowerCase '' padded '') \<noteq> toLowerCase '' padded '' \<and>
   trim (toLowerCase '' Padded '') = ''padded'' \<and>
   map fst (exactPatterns (snd (reload_resume example_externals (Inr example_rules) 5
       new_ErrorRuleDetector))) = [''out of memory'', '' padded ''] \<and>
   detectAsync_resume (snd (reload_resume example_externals (Inr example_rules) 5
       new_ErrorRuleDetector)) '' Padded '' = notMatched \<and>
   map_of (exactPatterns (snd (reload_resume example_externals (Inr example_rules) 5
       new_ErrorRuleDetector))) (trim (toLowerCase ''  Out Of Memory  '')) \<noteq> None \<and>
   matchType (detectAsync_resume (snd (reload_resume example_externals (Inr example_rules) 5
       new_ErrorRuleDetector)) ''  Out Of Memory  '') = Some ''exact'' \<and>
   pattern (detectAsync_resume (snd (reload_resume example_externals (Inr example_rules) 5
       new_ErrorRuleDetector)) ''  Out Of Memory  '') = Some ''out of memory'' \<and>
   example_rules ! 8 \<in> set example_rules \<and>
   pattern (detectAsync_resume (snd (reload_resume example_externals (Inr example_rules) 5
       new_ErrorRuleDetector)) ''  Out Of Memory  '') \<noteq>
     Some (toLowerCase (rule_pattern (example_rules ! 8))) \<and>
   detectAsync_resume (snd (reload_resume example_externals (Inr example_rules) 5
       new_ErrorRuleDetector)) ''out of memory now'' = notMatched"
proof -
  let ?d = "snd (reload_resume example_externals (Inr example_rules) 5 new_ErrorRuleDetector)"
  have k: "rule_matchType (example_rules ! 8) = ''exact''"
      "rule_pattern (example_rules ! 8) = '' padded ''"
      "rule_category (example_rules ! 8) = ''unreachable''"
      "rule_description (example_rules ! 8) = None"
    by code_simp+
  have mem: "example_rules ! 8 \<in> set example_rules"
    by (simp add: example_rules_def)
  have p: "padded '' padded ''"
    unfolding padded_def by code_simp
  have l: "toLowerCase '' padded '' = '' padded ''" "trim (toLowerCase '' Padded '') = ''padded''"
    "trim (toLowerCase ''  Out Of Memory  '') = ''out of memory''"
    by code_simp+
  have ks: "map fst (exactPatterns ?d) = [''out of memory'', '' padded '']"
    by code_simp
  have n: "detectAsync_resume ?d '' Padded '' = notMatched"
      "detectAsync_resume ?d ''out of memory now'' = notMatched"
    by code_simp+
  have none: "\<forall>p\<in>set (containsPatterns ?d).
      \<not> includes_str (toLowerCase ''  Out Of Memory  '') (cp_text p)"
    by code_simp
  have key: "map_of (exactPatterns ?d) (trim (toLowerCase ''  Out Of Memory  '')) \<noteq> None"
    by code_simp
  note store = exact_tier_semantics [of "example_rules ! 8" example_externals
      new_ErrorRuleDetector 0 0 "'' padded ''" "'' padded ''" example_rules 5 "''x''"]
  note look = exact_tier_semantics [where d = ?d and m = "''  Out Of Memory  ''"
      and p = "'' padded ''" and ext = example_externals and rules = example_rules and now = 5]
  from look none key
  have e: "matchType (detectAsync_resume ?d ''  Out Of Memory  '') = Some ''exact''"
    by simp
  note after = exact_tier_semantics [of "example_rules ! 8" example_externals
      new_ErrorRuleDetector 0 0 "''  Out Of Memory  ''" "'' padded ''" example_rules 5 "''x''"]
  from after e have both:
    "pattern (detectAsync_resume ?d ''  Out Of Memory  '') =
       Some (trim (toLowerCase ''  Out Of Memory  '')) \<and>
     (\<forall>r\<in>set example_rules. padded (rule_pattern r) \<longrightarrow>
        pattern (detectAsync_resume ?d ''  Out Of Memory  '') \<noteq>
          Some (toLowerCase (rule_pattern r)))"
    by blast
  then have pat: "pattern (detectAsync_resume ?d ''  Out Of Memory  '') =
            Some (trim (toLowerCase ''  Out Of Memory  ''))"
    and others: "\<forall>r\<in>set example_rules. padded (rule_pattern r) \<longrightarrow>
       pattern (detectAsync_resume ?d ''  Out Of Memory  '') \<noteq>
         Some (toLowerCase (rule_pattern r))"
    by blast+
  from others mem p k(2) have
    "pattern (detectAsync_resume ?d ''  Out Of Memory  '') \<noteq>
       Some (toLowerCase (rule_pattern (example_rules ! 8)))"
    by metis
  with store k p l ks n key e pat mem show ?thesis
    by simp
qed

section \<open>C7: the first match in a tier\<close>

text \<open>
  C7. When the containment entry at position \<open>i\<close> occurs in the lower-case
  message and no earlier entry does, the result is that entry, as a
  \<^verbatim>\<open>contains\<close> match. When no containment entry and no exact key matches, and
  the regex entry at position \<open>i\<close> accepts the message and no earlier one does,
  the result is that entry, as a \<^verbatim>\<open>regex\<close> match. On an initialized detector
  \<^verbatim>\<open>detect\<close> returns the same. A reload puts the containment entries and the
  regex entries into the indices in the order of the rules that the store
  delivered. With the containment rules \<^verbatim>\<open>error\<close> and \<^verbatim>\<open>error: timeout\<close>
  loaded in that order, the result for a message that contains both texts is
  the match with the pattern \<^verbatim>\<open>error\<close>.
\<close>

theorem first_match_wins:
  "(i < length (containsPatterns d) \<and>
    includes_str (toLowerCase m) (cp_text (containsPatterns d ! i)) \<and>
    (\<forall>j<i. \<not> includes_str (toLowerCase m) (cp_text (containsPatterns d ! j)))
    \<longrightarrow> detectAsync_resume d m =
          \<lparr>matched = True, category = Some (cp_category (containsPatterns d ! i)),
           pattern = Some (cp_text (containsPatterns d ! i)), matchType = Some ''contains''\<rparr>) \<and>
   ((\<forall>p\<in>set (containsPatterns d). \<not> includes_str (toLowerCase m) (cp_text p)) \<and>
    map_of (exactPatterns d) (trim (toLowerCase m)) = None \<and>
    i < length (regexPatterns d) \<and>
    test (rx_pattern (regexPatterns d ! i)) m \<and>
    (\<forall>j<i. \<not> test (rx_pattern (regexPatterns d ! j)) m)
    \<longrightarrow> detectAsync_resume d m =
          \<lparr>matched = True, category = Some (rx_category (regexPatterns d ! i)),
           pattern = Some (source (rx_pattern (regexPatterns d ! i))),
           matchType = Some ''regex''\<rparr>) \<and>
   (isInitialized d \<and> m \<noteq> [] \<longrightarrow> fst (detect d (Some m)) = detectAsync_resume d m) \<and>
   containsPatterns (snd (reload_resume ext (Inr rules) now d)) =
     map containsEntry (filter (\<lambda>r. rule_matchType r = ''contains'') rules) \<and>
   regexPatterns (snd (reload_resume ext (Inr rules) now d)) =
     List.map_filter (regexEntry ext) rules \<and>
   (includes_str (toLowerCase m) ''error'' \<and> includes_str (toLowerCase m) ''error: timeout''
    \<longrightarrow> detectAsync_resume
          (snd (reload_resume ext
             (Inr [\<lparr>rule_pattern = ''error'', rule_category = c1,
                    rule_matchType = ''contains'', rule_description = None\<rparr>,
                   \<lparr>rule_pattern = ''error: timeout'', rule_category = c2,
                    rule_matchType = ''contains'', rule_description = None\<rparr>]) now d)) m =
        \<lparr>matched = True, category = Some c1, pattern = Some ''error'',
         matchType = Some ''contains''\<rparr>)"
  using contains_first [of i d m] regex_first [of d m i] detect_initialized [of d m]
    reload_resume_containsPatterns [of ext rules now d]
    reload_resume_regexPatterns [of ext rules now d]
    error_before_timeout [of m ext c1 c2 now d]
  by simp

theorem first_match_wins_witness:
  "map cp_text (containsPatterns example_detector) = [''quota'', ''error'', ''error: timeout''] \<and>
   includes_str (toLowerCase ''Upstream Error: Timeout'') ''error'' \<and>
   includes_str (toLowerCase ''Upstream Error: Timeout'') ''error: timeout'' \<and>
   \<not> includes_str (toLowerCase ''Upstream Error: Timeout'') ''quota'' \<and>
   detectAsync_resume example_detector ''Upstream Error: Timeout'' =
     \<lparr>matched = True, category = Some ''generic'', pattern = Some ''error'',
      matchType = Some ''contains''\<rparr> \<and>
   fst (detect example_detector (Some ''Upstream Error: Timeout'')) =
     \<lparr>matched = True, category = Some ''generic'', pattern = Some ''error'',
      matchType = Some ''contains''\<rparr> \<and>
   map (\<lambda>r. source (rx_pattern r)) (regexPatterns example_detector) = [''refused'', ''fail''] \<and>
   detectAsync_resume example_detector ''the job FAILED'' =
     \<lparr>matched = True, category = Some ''failure'', pattern = Some ''fail'',
      matchType = Some ''regex''\<rparr> \<and>
   detectAsync_resume
     (snd (reload_resume example_externals
        (Inr [\<lparr>rule_pattern = ''error'', rule_category = ''generic'',
               rule_matchType = ''contains'', rule_description = None\<rparr>,
              \<lparr>rule_pattern = ''error: timeout'', rule_category = ''timeout'',
               rule_matchType = ''contains'', rule_description = None\<rparr>]) 5 example_detector))
     ''Upstream Error: Timeout'' =
     \<lparr>matched = True, category = Some ''generic'', pattern = Some ''error'',
      matchType = Some ''contains''\<rparr>"
proof -
  let ?m = "''Upstream Error: Timeout''"
  let ?n = "''the job FAILED''"
  have cs: "map cp_text (containsPatterns example_detector) =
      [''quota'', ''error'', ''error: timeout'']"
    by code_simp
  have c1: "1 < length (containsPatterns example_detector)"
    by code_simp
  have c2: "includes_str (toLowerCase ?m) (cp_text (containsPatterns example_detector ! 1))"
    by code_simp
  have c3: "\<forall>j<1. \<not> includes_str (toLowerCase ?m) (cp_text (containsPatterns example_detector ! j))"
    by code_simp
  have c4: "cp_category (containsPatterns example_detector ! 1) = ''generic''"
      "cp_text (containsPatterns example_detector ! 1) = ''error''"
    by code_simp+
  have i: "includes_str (toLowerCase ?m) ''error''"
      "includes_str (toLowerCase ?m) ''error: timeout''"
      "\<not> includes_str (toLowerCase ?m) ''quota''"
    by code_simp+
  have rs: "map (\<lambda>r. source (rx_pattern r)) (regexPatterns example_detector) =
      [''refused'', ''fail'']"
    by code_simp
  have r0: "\<forall>p\<in>set (containsPatterns example_detector).
      \<not> includes_str (toLowerCase ?n) (cp_text p)"
    by code_simp
  have r1: "map_of (exactPatterns example_detector) (trim (toLowerCase ?n)) = None"
    by code_simp
  have r2: "1 < length (regexPatterns example_detector)"
    by code_simp
  have r3: "test (rx_pattern (regexPatterns example_detector ! 1)) ?n"
    by code_simp
  have r4: "\<forall>j<1. \<not> test (rx_pattern (regexPatterns example_detector ! j)) ?n"
    by code_simp
  have r5: "rx_category (regexPatterns example_detector ! 1) = ''failure''"
      "source (rx_pattern (regexPatterns example_detector ! 1)) = ''fail''"
    by code_simp+
  have ready: "isInitialized example_detector"
    by code_simp
  from first_match_wins [of 1 example_detector ?m example_externals example_rules 5] c1 c2 c3 c4
    ready
  have a: "detectAsync_resume example_detector ?m =
     \<lparr>matched = True, category = Some ''generic'', pattern = Some ''error'',
      matchType = Some ''contains''\<rparr>"
    and b: "fst (detect example_detector (Some ?m)) = detectAsync_resume example_detector ?m"
    by simp_all
  from first_match_wins [of 1 example_detector ?m example_externals example_rules 5
      "''generic''" "''timeout''"] i
  have two: "detectAsync_resume
     (snd (reload_resume example_externals
        (Inr [\<lparr>rule_pattern = ''error'', rule_category = ''generic'',
               rule_matchType = ''contains'', rule_description = None\<rparr>,
              \<lparr>rule_pattern = ''error: timeout'', rule_category = ''timeout'',
               rule_matchType = ''contains'', rule_description = None\<rparr>]) 5 example_detector))
     ?m =
     \<lparr>matched = True, category = Some ''generic'', pattern = Some ''error'',
      matchType = Some ''contains''\<rparr>"
    by simp
  from first_match_wins [of 1 example_detector ?n example_externals example_rules 5]
    r0 r1 r2 r3 r4 r5
  have c: "detectAsync_resume example_detector ?n =
     \<lparr>matched = True, category = Some ''failure'', pattern = Some ''fail'',
      matchType = Some ''regex''\<rparr>"
    by simp
  from cs i a b rs c two show ?thesis by simp
qed

section \<open>C8: the two entry points agree\<close>

text \<open>
  C8. On an initialized detector \<^verbatim>\<open>detect\<close> and \<^verbatim>\<open>detectAsync\<close> return the same
  result, for every argument, and neither changes the detector nor starts
  anything. On a detector that is not initialized \<^verbatim>\<open>detect\<close> returns
  \<^verbatim>\<open>{matched: false}\<close> at once: the call of \<^verbatim>\<open>ensureInitialized\<close> it starts is
  not awaited. The same in a run of overlapping calls: on an initialized
  detector, a \<^verbatim>\<open>detect\<close> call and a \<^verbatim>\<open>detectAsync\<close> call that is resumed next
  return the same result.
\<close>

theorem detect_agrees_with_detectAsync:
  "(isInitialized d \<longrightarrow>
      detectAsync ext fetched now d errorMessage = Some (Inr (fst (detect d errorMessage)), d) \<and>
      snd (detect d errorMessage) = (None, d)) \<and>
   (\<not> isInitialized d \<longrightarrow> fst (detect d errorMessage) = notMatched) \<and>
   (isInitialized (detector sys) \<and> m \<noteq> [] \<longrightarrow>
      trace (step ext (CallDetect (Some m)) sys) =
        trace sys @ [DetectReturned (fst (detect (detector sys) (Some m)))] \<and>
      trace (run ext [CallDetectAsync (Some m), Resume (length (tasks sys))] sys) =
        trace sys @ [EnsureReturned, DetectAsyncReturned (fst (detect (detector sys) (Some m)))])"
  using detect_agrees_sequential [of d ext fetched now errorMessage]
    detect_agrees_overlapping [of sys m ext]
  by blast

theorem detect_agrees_with_detectAsync_witness:
  "isInitialized example_detector \<and>
   detectAsync example_externals (Inl []) 0 example_detector (Some ''  Out Of Memory  '') =
     Some (Inr \<lparr>matched = True, category = Some ''oom'', pattern = Some ''out of memory'',
                matchType = Some ''exact''\<rparr>, example_detector) \<and>
   fst (detect example_detector (Some ''  Out Of Memory  '')) =
     \<lparr>matched = True, category = Some ''oom'', pattern = Some ''out of memory'',
      matchType = Some ''exact''\<rparr> \<and>
   \<not> isInitialized new_ErrorRuleDetector \<and>
   fst (detect new_ErrorRuleDetector (Some ''  Out Of Memory  '')) = notMatched \<and>
   trace (run example_externals [CallDetectAsync (Some ''it FAILED''), Resume 0]
            \<lparr>detector = example_detector, tasks = [], fetches = 1, trace = []\<rparr>) =
     [EnsureReturned,
      DetectAsyncReturned \<lparr>matched = True, category = Some ''failure'', pattern = Some ''fail'',
        matchType = Some ''regex''\<rparr>]"
proof -
  have ready: "isInitialized example_detector"
    by code_simp
  have fresh: "\<not> isInitialized new_ErrorRuleDetector"
    by code_simp
  have exact: "fst (detect example_detector (Some ''  Out Of Memory  '')) =
     \<lparr>matched = True, category = Some ''oom'', pattern = Some ''out of memory'',
      matchType = Some ''exact''\<rparr>"
    by code_simp
  have regex: "fst (detect example_detector (Some ''it FAILED'')) =
     \<lparr>matched = True, category = Some ''failure'', pattern = Some ''fail'',
      matchType = Some ''regex''\<rparr>"
    by code_simp
  show ?thesis
    using ready fresh exact regex
      detect_agrees_with_detectAsync [of example_detector example_externals "Inl []" 0
        "Some ''  Out Of Memory  ''"
        "\<lparr>detector = example_detector, tasks = [], fetches = 1, trace = []\<rparr>" "''it FAILED''"]
      detect_agrees_with_detectAsync [of new_ErrorRuleDetector example_externals "Inl []" 0
        "Some ''  Out Of Memory  ''" init_system "''x''"]
    by simp
qed

section \<open>C9: ensureInitialized\<close>

text \<open>
  C9, as stated, fails. A \<^verbatim>\<open>reload\<close> call is waiting for the store when
  \<^verbatim>\<open>detectAsync\<close> calls \<^verbatim>\<open>ensureInitialized\<close> on the detector, which is not
  initialized; the call polls; the store's query fails; the polling call then
  returns, and the detector is still not initialized.
\<close>

theorem ensureInitialized_waiting_counterexample:
  "\<not> isInitialized (detector (run example_externals [CallReload] init_system)) \<and>
   tasks (run example_externals [CallReload, CallDetectAsync (Some ''x'')] init_system) =
     [ReloadFetching, EnsurePolling (DetectAsyncCall ''x'')] \<and>
   trace (run example_externals
       [CallReload, CallDetectAsync (Some ''x''),
        FetchSettles 0 (Inl ''connection refused'') 9, Resume 0] init_system) =
     [ReloadReturned, EnsureReturned] \<and>
   \<not> isInitialized (detector (run example_externals
       [CallReload, CallDetectAsync (Some ''x''),
        FetchSettles 0 (Inl ''connection refused'') 9, Resume 0] init_system))"
  by code_simp

text \<open>
  C9, amended. On a detector that is not initialized and has no load in
  progress, \<^verbatim>\<open>ensureInitialized\<close> queries the store, and when it returns the
  initialized flag is set and the loading flag is not, whether the query
  delivered rules or failed. On an initialized detector it returns at once,
  with no query and no change. On a detector that is not initialized and has a
  load in progress it sends no query and waits. In a run of overlapping calls,
  the call that did the reload itself returns in the step that sets the flag;
  the call that polls sends no query and leaves the detector as it is, and
  returns when it finds the loading flag reset.
\<close>

theorem ensureInitialized_marks:
  "(\<not> isInitialized d \<and> \<not> isLoading d \<longrightarrow>
      ensureInitialized_start d = (EnsureReloads, d\<lparr>isLoading := True\<rparr>) \<and>
      (\<exists>d'. ensureInitialized ext fetched now d = Some (None, d') \<and>
            isInitialized d' \<and> \<not> isLoading d')) \<and>
   (isInitialized d \<longrightarrow>
      ensureInitialized_start d = (EnsureDone, d) \<and>
      ensureInitialized ext fetched now d = Some (None, d)) \<and>
   (\<not> isInitialized d \<and> isLoading d \<longrightarrow> ensureInitialized_start d = (EnsureWaits, d)) \<and>
   (i < length (tasks sys) \<and> tasks sys ! i = EnsureMarking w \<longrightarrow>
      isInitialized (detector (step ext (Resume i) sys)) \<and>
      trace (step ext (Resume i) sys) = trace sys @ [EnsureReturned]) \<and>
   (i < length (tasks sys) \<and> tasks sys ! i = EnsurePolling w \<longrightarrow>
      detector (step ext (Resume i) sys) = detector sys \<and>
      fetches (step ext (Resume i) sys) = fetches sys \<and>
      trace (step ext (Resume i) sys) =
        (if isLoading (detector sys) then trace sys else trace sys @ [EnsureReturned]))"
  using ensureInitialized_idle [of d ext fetched now] ensureInitialized_ready [of d ext fetched now]
    resume_marking [of i sys w ext] resume_polling [of i sys w ext]
  by (simp add: ensureInitialized_start_def del: step.simps)

theorem ensureInitialized_marks_witness:
  "\<not> isInitialized new_ErrorRuleDetector \<and> \<not> isLoading new_ErrorRuleDetector \<and>
   ensureInitialized_start new_ErrorRuleDetector =
     (EnsureReloads, new_ErrorRuleDetector\<lparr>isLoading := True\<rparr>) \<and>
   (\<exists>d'. ensureInitialized example_externals (Inl ''connection refused'') 9 new_ErrorRuleDetector
            = Some (None, d') \<and> isInitialized d' \<and> \<not> isLoading d') \<and>
   isInitialized example_detector \<and>
   ensureInitialized_start example_detector = (EnsureDone, example_detector) \<and>
   \<not> isInitialized (new_ErrorRuleDetector\<lparr>isLoading := True\<rparr>) \<and>
   isLoading (new_ErrorRuleDetector\<lparr>isLoading := True\<rparr>) \<and>
   ensureInitialized_start (new_ErrorRuleDetector\<lparr>isLoading := True\<rparr>) =
     (EnsureWaits, new_ErrorRuleDetector\<lparr>isLoading := True\<rparr>) \<and>
   tasks (run example_externals
       [CallDetectAsync (Some ''x''), FetchSettles 0 (Inl ''connection refused'') 9] init_system) ! 0
     = EnsureMarking (DetectAsyncCall ''x'') \<and>
   isInitialized (detector (step example_externals (Resume 0) (run example_externals
       [CallDetectAsync (Some ''x''), FetchSettles 0 (Inl ''connection refused'') 9] init_system))) \<and>
   fetches (run example_externals
       [CallDetectAsync (Some ''x''), FetchSettles 0 (Inl ''connection refused'') 9, Resume 0,
        CallDetectAsync (Some ''y''), CallDetect (Some ''z'')] init_system) = 1 \<and>
   tasks (run example_externals [CallReload, CallDetectAsync (Some ''x'')] init_system) ! 1
     = EnsurePolling (DetectAsyncCall ''x'') \<and>
   detector (step example_externals (Resume 1)
       (run example_externals [CallReload, CallDetectAsync (Some ''x'')] init_system)) =
     detector (run example_externals [CallReload, CallDetectAsync (Some ''x'')] init_system) \<and>
   trace (step example_externals (Resume 1)
       (run example_externals [CallReload, CallDetectAsync (Some ''x'')] init_system)) = []"
proof -
  let ?sys = "run example_externals
       [CallDetectAsync (Some ''x''), FetchSettles 0 (Inl ''connection refused'') 9] init_system"
  let ?polling = "run example_externals [CallReload, CallDetectAsync (Some ''x'')] init_system"
  have q: "1 < length (tasks ?polling)" "tasks ?polling ! 1 = EnsurePolling (DetectAsyncCall ''x'')"
      "isLoading (detector ?polling)" "trace ?polling = []"
    by code_simp+
  have fresh: "\<not> isInitialized new_ErrorRuleDetector" "\<not> isLoading new_ErrorRuleDetector"
    by code_simp+
  have busy: "\<not> isInitialized (new_ErrorRuleDetector\<lparr>isLoading := True\<rparr>)"
      "isLoading (new_ErrorRuleDetector\<lparr>isLoading := True\<rparr>)"
    by code_simp+
  have ready: "isInitialized example_detector"
    by code_simp
  have t: "0 < length (tasks ?sys)" "tasks ?sys ! 0 = EnsureMarking (DetectAsyncCall ''x'')"
    by code_simp+
  have f: "fetches (run example_externals
       [CallDetectAsync (Some ''x''), FetchSettles 0 (Inl ''connection refused'') 9, Resume 0,
        CallDetectAsync (Some ''y''), CallDetect (Some ''z'')] init_system) = 1"
    by code_simp
  from fresh busy ready t f q
    ensureInitialized_marks [of new_ErrorRuleDetector example_externals
      "Inl ''connection refused''" 9 1 ?polling "DetectAsyncCall ''x''"]
    ensureInitialized_marks [of new_ErrorRuleDetector example_externals
      "Inl ''connection refused''" 9 0 ?sys "DetectAsyncCall ''x''"]
    ensureInitialized_marks [of example_detector example_externals
      "Inl ''connection refused''" 9 0 ?sys "DetectAsyncCall ''x''"]
    ensureInitialized_marks [of "new_ErrorRuleDetector\<lparr>isLoading := True\<rparr>" example_externals
      "Inl ''connection refused''" 9 0 ?sys "DetectAsyncCall ''x''"]
  show ?thesis
    by (simp del: step.simps)
qed

section \<open>C10: shape of a result\<close>

text \<open>
  C10. Every result of \<^verbatim>\<open>detect\<close> and of \<^verbatim>\<open>detectAsync\<close> is well formed: a
  match carries a category, a pattern and one of the three tier names, and a
  result that is no match carries none of the three fields. This holds for
  every detector and every argument, for the code of \<^verbatim>\<open>detectAsync\<close> after
  its suspension point, for a \<^verbatim>\<open>detectAsync\<close> call run on its own (which, when
  it returns, returns a result and no rejection), and for every result returned
  in a run of overlapping calls.
\<close>

theorem results_wellFormed:
  "wellFormed (fst (detect d errorMessage)) \<and>
   wellFormed (detectAsync_resume d m) \<and>
   (case detectAsync ext fetched now d errorMessage of
      None \<Rightarrow> True
    | Some (Inl message, d') \<Rightarrow> False
    | Some (Inr r, d') \<Rightarrow> wellFormed r) \<and>
   (\<forall>obs\<in>set (trace (run ext evs init_system)). observed_wellFormed obs)"
  using detect_wellFormed detectAsync_resume_wellFormed detectAsync_wellFormed
    run_trace_wellFormed by blast

theorem results_wellFormed_witness:
  "wellFormed (fst (detect example_detector (Some ''it FAILED''))) \<and>
   fst (detect example_detector (Some ''it FAILED'')) =
     \<lparr>matched = True, category = Some ''failure'', pattern = Some ''fail'',
      matchType = Some ''regex''\<rparr> \<and>
   wellFormed (detectAsync_resume example_detector ''nothing to see'') \<and>
   detectAsync_resume example_detector ''nothing to see'' = notMatched \<and>
   list_all observed_wellFormed (trace (run example_externals
        [CallDetect (Some ''x''), FetchSettles 0 (Inr example_rules) 5, Resume 0,
         CallDetect (Some ''an Error'')] init_system)) \<and>
   trace (run example_externals
        [CallDetect (Some ''x''), FetchSettles 0 (Inr example_rules) 5, Resume 0,
         CallDetect (Some ''an Error'')] init_system) =
     [DetectReturned notMatched, EnsureReturned,
      DetectReturned \<lparr>matched = True, category = Some ''generic'', pattern = Some ''error'',
        matchType = Some ''contains''\<rparr>]"
proof -
  have r1: "fst (detect example_detector (Some ''it FAILED'')) =
     \<lparr>matched = True, category = Some ''failure'', pattern = Some ''fail'',
      matchType = Some ''regex''\<rparr>"
    by code_simp
  have r2: "detectAsync_resume example_detector ''nothing to see'' = notMatched"
    by code_simp
  have r3: "trace (run example_externals
        [CallDetect (Some ''x''), FetchSettles 0 (Inr example_rules) 5, Resume 0,
         CallDetect (Some ''an Error'')] init_system) =
     [DetectReturned notMatched, EnsureReturned,
      DetectReturned \<lparr>matched = True, category = Some ''generic'', pattern = Some ''error'',
        matchType = Some ''contains''\<rparr>]"
    by code_simp
  show ?thesis
    using r1 r2 r3
      results_wellFormed [of example_detector "Some ''it FAILED''" "''nothing to see''"
        example_externals "Inl []" 0
        "[CallDetect (Some ''x''), FetchSettles 0 (Inr example_rules) 5, Resume 0,
          CallDetect (Some ''an Error'')]"]
    by (simp add: list_all_iff)
qed

end
